theory Spec2Isabelle
  imports Complex_Main
begin

section \<open>The Number type of the host language\<close>

text \<open>
  Every numeric value of \<^verbatim>\<open>BagScreen\<close> (prices, quantities, the shipping cost, the
  sums) is an ECMAScript Number: an IEEE 754 binary64 value. A finite Number is modelled by
  the rational it denotes; the two zeros are one value, since none of the operations the
  screen uses (\<^verbatim>\<open>+\<close>, \<^verbatim>\<open>-\<close>, \<^verbatim>\<open>*\<close>, \<^verbatim>\<open>>\<close>, \<^verbatim>\<open>toFixed\<close>, string interpolation) tells them
  apart. Every arithmetic result is the exact result rounded to the nearest binary64 value,
  ties to the even significand, overflowing to an infinity.
\<close>

datatype number = Fin rat | PInf | NInf | NaN

text \<open>\<open>ilog b x\<close> is the integer \<open>e\<close> with \<open>b\<^sup>e \<le> x < b\<^sup>e\<^sup>+\<^sup>1\<close>, for \<open>x > 0\<close> and \<open>b \<ge> 2\<close>.\<close>

function ilog_up :: "nat \<Rightarrow> rat \<Rightarrow> int" where
  "ilog_up b x = (if b < 2 \<or> x < of_nat b then 0 else ilog_up b (x / of_nat b) + 1)"
  by pat_completeness auto
termination
proof (relation "measure (\<lambda>(b, x). nat \<lfloor>x\<rfloor>)")
  show "wf (measure (\<lambda>(b, x). nat \<lfloor>x\<rfloor>))" by simp
next
  fix b :: nat and x :: rat
  assume "\<not> (b < 2 \<or> x < of_nat b)"
  then have b: "2 \<le> b" and x: "of_nat b \<le> x" by auto
  have b2: "(2::rat) \<le> of_nat b" using b by (metis of_nat_le_iff of_nat_numeral)
  have x2: "2 \<le> x" using b2 x by linarith
  have "x / of_nat b \<le> x / 2" using b2 x2 by (intro divide_left_mono) auto
  also have "\<dots> \<le> x - 1" using x2 by simp
  finally have "\<lfloor>x / of_nat b\<rfloor> \<le> \<lfloor>x - 1\<rfloor>" by (rule floor_mono)
  moreover have "0 < \<lfloor>x\<rfloor>" using x2 by simp
  ultimately show "((b, x / of_nat b), (b, x)) \<in> measure (\<lambda>(b, x). nat \<lfloor>x\<rfloor>)"
    by simp
qed

function ilog_down :: "nat \<Rightarrow> rat \<Rightarrow> int" where
  "ilog_down b x =
     (if b < 2 \<or> x \<le> 0 \<or> 1 \<le> x then 0 else ilog_down b (x * of_nat b) - 1)"
  by pat_completeness auto
termination
proof (relation "measure (\<lambda>(b, x). nat \<lceil>1 / x\<rceil>)")
  show "wf (measure (\<lambda>(b, x). nat \<lceil>1 / x\<rceil>))" by simp
next
  fix b :: nat and x :: rat
  assume "\<not> (b < 2 \<or> x \<le> 0 \<or> 1 \<le> x)"
  then have b: "2 \<le> b" and x0: "0 < x" and x1: "x < 1" by auto
  have b2: "(2::rat) \<le> of_nat b" using b by (metis of_nat_le_iff of_nat_numeral)
  define y where "y = 1 / x"
  have y1: "1 < y" using x0 x1 by (simp add: y_def)
  then have c2: "2 \<le> \<lceil>y\<rceil>" by (simp add: le_ceiling_iff)
  have "1 / (x * of_nat b) = y / of_nat b" by (simp add: y_def)
  also have "\<dots> \<le> y / 2" using b2 y1 by (intro divide_left_mono) auto
  also have "\<dots> \<le> of_int \<lceil>y\<rceil> / 2" by (simp add: divide_right_mono)
  also have "\<dots> \<le> of_int (\<lceil>y\<rceil> - 1)" using c2 by simp
  finally have "\<lceil>1 / (x * of_nat b)\<rceil> \<le> \<lceil>y\<rceil> - 1" by (rule ceiling_le)
  then show "((b, x * of_nat b), (b, x)) \<in> measure (\<lambda>(b, x). nat \<lceil>1 / x\<rceil>)"
    using c2 x0 by (simp add: y_def)
qed

declare ilog_up.simps [simp del] ilog_down.simps [simp del]

definition ilog :: "nat \<Rightarrow> rat \<Rightarrow> int" where
  "ilog b x = (if 1 \<le> x then ilog_up b x else ilog_down b x)"

text \<open>Rounding to the nearest integer, a tie going to the even one.\<close>

definition roundHalfEven :: "rat \<Rightarrow> int" where
  "roundHalfEven x =
     (let f = \<lfloor>x\<rfloor>; r = x - of_int f
      in if r < 1 / 2 then f else if 1 / 2 < r then f + 1 else if even f then f else f + 1)"

text \<open>
  The binary64 value of a real number (IEEE 754 roundTiesToEven): 53 significant bits,
  least normal exponent \<open>-1022\<close> (below it the spacing stays \<open>2\<^sup>-\<^sup>1\<^sup>0\<^sup>7\<^sup>4\<close>), and an infinity
  once the rounded magnitude reaches \<open>2\<^sup>1\<^sup>0\<^sup>2\<^sup>4\<close>.
\<close>

definition roundToDouble :: "rat \<Rightarrow> number" where
  "roundToDouble x =
     (if x = 0 then Fin 0
      else let a = \<bar>x\<bar>;
               e = max (ilog 2 a) (- 1022);
               u = 2 powi (e - 52);
               y = of_int (roundHalfEven (a / u)) * u
           in if 2 ^ 1024 \<le> y then (if 0 < x then PInf else NInf)
              else Fin (if 0 < x then y else - y))"

text \<open>A numeric literal of the source denotes the binary64 value nearest to it.\<close>

definition lit :: "rat \<Rightarrow> number" where
  "lit x = roundToDouble x"

text \<open>The operators \<^verbatim>\<open>+\<close>, unary and binary \<^verbatim>\<open>-\<close>, \<^verbatim>\<open>*\<close> and \<^verbatim>\<open>>\<close> on Numbers.\<close>

definition jsAdd :: "number \<Rightarrow> number \<Rightarrow> number" where
  "jsAdd a b =
     (case (a, b) of
        (NaN, _) \<Rightarrow> NaN
      | (_, NaN) \<Rightarrow> NaN
      | (PInf, NInf) \<Rightarrow> NaN
      | (NInf, PInf) \<Rightarrow> NaN
      | (PInf, _) \<Rightarrow> PInf
      | (_, PInf) \<Rightarrow> PInf
      | (NInf, _) \<Rightarrow> NInf
      | (_, NInf) \<Rightarrow> NInf
      | (Fin x, Fin y) \<Rightarrow> roundToDouble (x + y))"

definition jsNeg :: "number \<Rightarrow> number" where
  "jsNeg a = (case a of Fin x \<Rightarrow> Fin (- x) | PInf \<Rightarrow> NInf | NInf \<Rightarrow> PInf | NaN \<Rightarrow> NaN)"

definition jsSub :: "number \<Rightarrow> number \<Rightarrow> number" where
  "jsSub a b = jsAdd a (jsNeg b)"

definition jsSign :: "number \<Rightarrow> int" where
  "jsSign a =
     (case a of
        Fin x \<Rightarrow> (if 0 < x then 1 else if x < 0 then - 1 else 0)
      | PInf \<Rightarrow> 1
      | NInf \<Rightarrow> - 1
      | NaN \<Rightarrow> 0)"

definition jsMul :: "number \<Rightarrow> number \<Rightarrow> number" where
  "jsMul a b =
     (case (a, b) of
        (Fin x, Fin y) \<Rightarrow> roundToDouble (x * y)
      | _ \<Rightarrow> if a = NaN \<or> b = NaN \<or> jsSign a * jsSign b = 0 then NaN
             else if 0 < jsSign a * jsSign b then PInf else NInf)"

definition jsGreater :: "number \<Rightarrow> number \<Rightarrow> bool" where
  "jsGreater a b =
     (case (a, b) of
        (NaN, _) \<Rightarrow> False
      | (_, NaN) \<Rightarrow> False
      | (Fin x, Fin y) \<Rightarrow> y < x
      | (PInf, PInf) \<Rightarrow> False
      | (PInf, _) \<Rightarrow> True
      | (Fin x, NInf) \<Rightarrow> True
      | _ \<Rightarrow> False)"

subsection \<open>Numbers as strings\<close>

fun digits :: "int \<Rightarrow> string" where
  "digits n =
     (if n < 10 then [''0123456789'' ! nat n]
      else digits (n div 10) @ [''0123456789'' ! nat (n mod 10)])"

declare digits.simps [simp del]

text \<open>
  \<^verbatim>\<open>Number::toString\<close> prints the shortest decimal \<open>s \<times> 10\<^sup>n\<^sup>-\<^sup>k\<close> (\<open>k\<close> digits in \<open>s\<close>) whose
  binary64 value is the number, the closest such decimal when several have \<open>k\<close> digits.
  Seventeen digits always suffice for a binary64 value.
\<close>

definition roundTrips :: "rat \<Rightarrow> int \<Rightarrow> nat \<Rightarrow> int \<Rightarrow> bool" where
  "roundTrips x n k s \<longleftrightarrow>
     10 ^ (k - 1) \<le> s \<and> s < 10 ^ k \<and> roundToDouble (of_int s * 10 powi (n - int k)) = Fin x"

definition candidates :: "rat \<Rightarrow> nat \<Rightarrow> (int \<times> int) list" where
  "candidates x k =
     concat (map (\<lambda>n. let f = \<lfloor>x / 10 powi (n - int k)\<rfloor>
                       in filter (\<lambda>(n, s). roundTrips x n k s) [(n, f), (n, f + 1)])
                 [ilog 10 x + 1, ilog 10 x + 2])"

definition closer :: "rat \<Rightarrow> nat \<Rightarrow> int \<times> int \<Rightarrow> int \<times> int \<Rightarrow> int \<times> int" where
  "closer x k c d =
     (let dc = \<bar>of_int (snd c) * 10 powi (fst c - int k) - x\<bar>;
          dd = \<bar>of_int (snd d) * 10 powi (fst d - int k) - x\<bar>
      in if dd < dc \<or> (dd = dc \<and> even (snd d) \<and> odd (snd c)) then d else c)"

fun shortest :: "rat \<Rightarrow> nat \<Rightarrow> nat \<Rightarrow> int \<times> nat \<times> int" where
  "shortest x k 0 = (ilog 10 x + 1, k, \<lfloor>x / 10 powi (ilog 10 x + 1 - int k)\<rfloor>)"
| "shortest x k (Suc fuel) =
     (case candidates x k of
        [] \<Rightarrow> shortest x (Suc k) fuel
      | c # cs \<Rightarrow> (let (n, s) = foldl (closer x k) c cs in (n, k, s)))"

definition numberToString :: "number \<Rightarrow> string" where
  "numberToString a =
     (case a of
        NaN \<Rightarrow> ''NaN''
      | PInf \<Rightarrow> ''Infinity''
      | NInf \<Rightarrow> ''-Infinity''
      | Fin v \<Rightarrow>
          if v = 0 then ''0''
          else let x = \<bar>v\<bar>;
                   sign = (if v < 0 then ''-'' else []);
                   (n, k, s) = shortest x 1 17;
                   ds = digits s
               in if - 5 \<le> n \<and> n \<le> 21 then
                    (if int k \<le> n then sign @ ds @ replicate (nat (n - int k)) (CHR ''0'')
                     else if 0 < n then sign @ take (nat n) ds @ ''.'' @ drop (nat n) ds
                     else sign @ ''0.'' @ replicate (nat (- n)) (CHR ''0'') @ ds)
                  else
                    (let e = n - 1;
                         es = (if 0 \<le> e then ''+'' else ''-'') @ digits \<bar>e\<bar>
                     in if k = 1 then sign @ ds @ ''e'' @ es
                        else sign @ take 1 ds @ ''.'' @ drop 1 ds @ ''e'' @ es))"

text \<open>
  \<^verbatim>\<open>Number.prototype.toFixed(f)\<close>, for \<open>0 \<le> f \<le> 100\<close> (the screen passes 2): the integer
  \<open>n\<close> with \<open>n / 10\<^sup>f\<close> nearest to the exact value, the larger one on a tie, printed with \<open>f\<close>
  digits after the point; from \<open>10\<^sup>2\<^sup>1\<close> on, and for a value that is not finite,
  \<^verbatim>\<open>Number::toString\<close>.
\<close>

definition toFixed :: "number \<Rightarrow> nat \<Rightarrow> string" where
  "toFixed a f =
     (case a of
        Fin v \<Rightarrow>
          (let x = \<bar>v\<bar>; sign = (if v < 0 then ''-'' else [])
           in if 10 ^ 21 \<le> x then sign @ numberToString (Fin x)
              else let n = \<lfloor>x * 10 ^ f + 1 / 2\<rfloor>;
                       m = digits n;
                       m = (if length m \<le> f then replicate (f + 1 - length m) (CHR ''0'') @ m
                            else m)
                   in if f = 0 then sign @ m
                      else sign @ take (length m - f) m @ ''.'' @ drop (length m - f) m)
      | _ \<Rightarrow> numberToString a)"

section \<open>The cart of \<^verbatim>\<open>BagScreen\<close>\<close>

text \<open>
  A line item, as the object literals of the initial state have it. The field \<^verbatim>\<open>id\<close> is
  only ever compared (\<^verbatim>\<open>item.id === id\<close>), never computed with; it is an integer.
\<close>

record item =
  item_id :: int
  name :: string
  details :: string
  price :: number
  quantity :: number

definition SHIPPING_COST :: number where
  "SHIPPING_COST = lit 15"

definition initialCartItems :: "item list" where
  "initialCartItems =
     [\<lparr>item_id = 1, name = ''Athletic Gear 1'', details = ''Size L - Black'',
        price = lit (4599 / 100), quantity = lit 2\<rparr>,
      \<lparr>item_id = 2, name = ''Athletic Gear 2'', details = ''Size M - Red'',
        price = lit (5299 / 100), quantity = lit 1\<rparr>,
      \<lparr>item_id = 3, name = ''Athletic Gear 3'', details = ''Size XL - Blue'',
        price = lit (3895 / 100), quantity = lit 3\<rparr>]"

text \<open>
  The updater functions that \<^verbatim>\<open>incrementQuantity(id)\<close> and \<^verbatim>\<open>decrementQuantity(id)\<close> hand to
  \<^verbatim>\<open>setCartItems\<close>: a \<^verbatim>\<open>map\<close> over the items that rebuilds the matching ones.
\<close>

definition incrementQuantity :: "int \<Rightarrow> item list \<Rightarrow> item list" where
  "incrementQuantity i items =
     map (\<lambda>item. if item_id item = i
                  then item\<lparr>quantity := jsAdd (quantity item) (lit 1)\<rparr>
                  else item) items"

definition decrementQuantity :: "int \<Rightarrow> item list \<Rightarrow> item list" where
  "decrementQuantity i items =
     map (\<lambda>item. if item_id item = i \<and> jsGreater (quantity item) (lit 1)
                  then item\<lparr>quantity := jsSub (quantity item) (lit 1)\<rparr>
                  else item) items"

text \<open>\<^verbatim>\<open>Array.prototype.reduce\<close> with an initial value, and the body of the \<^verbatim>\<open>useMemo\<close> call.\<close>

definition reduce :: "('b \<Rightarrow> 'a \<Rightarrow> 'b) \<Rightarrow> 'b \<Rightarrow> 'a list \<Rightarrow> 'b" where
  "reduce f init xs = foldl f init xs"

definition computeTotals :: "item list \<Rightarrow> number \<times> number" where
  "computeTotals cartItems =
     (let subtotal = reduce (\<lambda>sum item. jsAdd sum (jsMul (price item) (quantity item)))
                            (lit 0) cartItems;
          totalItems = reduce (\<lambda>sum item. jsAdd sum (quantity item)) (lit 0) cartItems
      in (subtotal, totalItems))"

section \<open>The component state\<close>

text \<open>
  What a checkout can show and submit. An alert button either has no \<^verbatim>\<open>onPress\<close> or the one
  handler the file writes, \<^verbatim>\<open>() => { setCartItems([]) }\<close>.
\<close>

datatype handler = ClearCart

record button =
  btn_text :: string
  onPress :: "handler option"

record alert =
  title :: string
  message :: string
  buttons :: "button list"

record paymentData =
  amount :: string
  currency :: string
  description :: string
  clientId :: string
  environment :: string

text \<open>
  The state of a mounted \<^verbatim>\<open>BagScreen\<close>, between two events. \<^verbatim>\<open>useMemo\<close> compares its
  dependency \<^verbatim>\<open>cartItems\<close> by identity, so the array in the state cell carries the identity
  of the array object (\<open>cartItemsRef\<close>), and \<open>heapNext\<close> is the first identity no object has
  yet. \<open>memoDeps\<close> and \<open>memoValue\<close> are what the last run of the \<^verbatim>\<open>useMemo\<close> body saw and
  returned. \<open>alerts\<close> are the dialogs on screen, \<open>inflight\<close> the \<^verbatim>\<open>payWithPayPal\<close> promises not
  yet settled, \<open>submitted\<close> every \<^verbatim>\<open>payWithPayPal\<close> call made so far.
\<close>

record bag =
  cartItems :: "item list"
  cartItemsRef :: nat
  heapNext :: nat
  memoDeps :: nat
  memoValue :: "number \<times> number"
  alerts :: "alert list"
  inflight :: "paymentData list"
  submitted :: "paymentData list"

definition useMemo :: "bag \<Rightarrow> bag" where
  "useMemo s =
     (if memoDeps s = cartItemsRef s then s
      else s\<lparr>memoDeps := cartItemsRef s, memoValue := computeTotals (cartItems s)\<rparr>)"

text \<open>The values a render binds: \<^verbatim>\<open>subtotal\<close>, \<^verbatim>\<open>totalItems\<close> and \<^verbatim>\<open>total\<close>.\<close>

definition subtotal :: "bag \<Rightarrow> number" where
  "subtotal s = fst (memoValue s)"

definition totalItems :: "bag \<Rightarrow> number" where
  "totalItems s = snd (memoValue s)"

definition total :: "bag \<Rightarrow> number" where
  "total s = jsAdd (subtotal s) SHIPPING_COST"

text \<open>
  \<^verbatim>\<open>setCartItems(f)\<close> stores the array the updater returns, a new object, and the component
  renders again before the next event. \<open>mount\<close> is the state after the first render, for
  any initial items.
\<close>

definition setCartItems :: "(item list \<Rightarrow> item list) \<Rightarrow> bag \<Rightarrow> bag" where
  "setCartItems f s =
     useMemo (s\<lparr>cartItems := f (cartItems s), cartItemsRef := heapNext s,
               heapNext := Suc (heapNext s)\<rparr>)"

definition mount :: "item list \<Rightarrow> bag" where
  "mount items =
     \<lparr>cartItems = items, cartItemsRef = 0, heapNext = 1, memoDeps = 0,
      memoValue = computeTotals items, alerts = [], inflight = [], submitted = []\<rparr>"

definition BagScreen :: bag where
  "BagScreen = mount initialCartItems"

section \<open>Checkout\<close>

text \<open>
  The module-level \<^verbatim>\<open>PayPal\<close>: \<^verbatim>\<open>null\<close> on the web, and elsewhere what
  \<^verbatim>\<open>require('react-native-paypal').PayPal\<close> gives, \<^verbatim>\<open>null\<close> when the \<^verbatim>\<open>require\<close> throws.
\<close>

datatype os = ios | android | windows | macos | web

datatype capability = PayPalModule

datatype 'a required = Threw | Exported 'a

definition loadPayPal :: "os \<Rightarrow> capability option required \<Rightarrow> capability option" where
  "loadPayPal platform r =
     (if platform \<noteq> web then (case r of Exported p \<Rightarrow> p | Threw \<Rightarrow> None) else None)"

record env =
  OS :: os
  PayPal :: "capability option"

text \<open>
  \<^verbatim>\<open>Alert.alert\<close> of \<^verbatim>\<open>react-native\<close>. On a native platform it puts up a dialog with the
  given title, message and buttons. Where \<^verbatim>\<open>Platform.OS\<close> is \<^verbatim>\<open>'web'\<close> the module is the
  one of react-native-web, whose \<^verbatim>\<open>Alert.alert\<close> has an empty body: the call shows nothing
  and keeps none of its arguments, so that no button of it can ever be pressed.
\<close>

definition Alert_alert :: "os \<Rightarrow> string \<Rightarrow> string \<Rightarrow> button list \<Rightarrow> bag \<Rightarrow> bag" where
  "Alert_alert platform t m bs s =
     (if platform = web then s
      else s\<lparr>alerts := alerts s @ [\<lparr>title = t, message = m, buttons = bs\<rparr>]\<rparr>)"

definition payWithPayPal :: "paymentData \<Rightarrow> bag \<Rightarrow> bag" where
  "payWithPayPal d s = s\<lparr>inflight := inflight s @ [d], submitted := submitted s @ [d]\<rparr>"

definition handlePayPalPayment :: "env \<Rightarrow> bag \<Rightarrow> bag" where
  "handlePayPalPayment e s =
     (if OS e = web then
        Alert_alert (OS e) ''Demo Mode''
          (''PayPal payment simulation completed successfully!'' @ [CHR 0x0A, CHR 0x0A] @
           ''Note: PayPal integration works on mobile devices. This is a demo for web.'')
          [\<lparr>btn_text = ''OK'', onPress = Some ClearCart\<rparr>] s
      else if PayPal e = None then
        Alert_alert (OS e) ''PayPal Unavailable''
          ''PayPal payment is not available on this platform.''
          [\<lparr>btn_text = ''OK'', onPress = None\<rparr>] s
      else
        payWithPayPal
          \<lparr>amount = toFixed (total s) 2,
           currency = ''USD'',
           description = ''Extreme Fit - '' @ numberToString (totalItems s) @ '' items'',
           clientId =
             ''AX5LCRqe63mpn5Iuk5dD6Z6E32Qn6skf2MdRRGmtDDPQwvKMdx76rqjSbYgISFz8L5fuR_sFGHmFy7fh'',
           environment = ''sandbox''\<rparr> s)"

text \<open>
  How a \<^verbatim>\<open>payWithPayPal\<close> promise settles: resolved with a response whose
  \<^verbatim>\<open>response.id\<close> is the given transaction id, or rejected with an error (which the
  \<^verbatim>\<open>catch\<close> callback only logs). The \<^verbatim>\<open>then\<close> and \<^verbatim>\<open>catch\<close> callbacks of
  \<^verbatim>\<open>handlePayPalPayment\<close> run on the \<open>k\<close>-th promise in flight.
\<close>

datatype settlement = Resolved string | Rejected string

definition removeAt :: "nat \<Rightarrow> 'a list \<Rightarrow> 'a list" where
  "removeAt k xs = take k xs @ drop (Suc k) xs"

definition settle :: "env \<Rightarrow> nat \<Rightarrow> settlement \<Rightarrow> bag \<Rightarrow> bag" where
  "settle e k r s =
     (if k < length (inflight s) then
        (case r of
           Resolved transactionId \<Rightarrow>
             Alert_alert (OS e) ''Payment Successful!'' (''Transaction ID: '' @ transactionId)
               [\<lparr>btn_text = ''OK'', onPress = Some ClearCart\<rparr>]
               (s\<lparr>inflight := removeAt k (inflight s)\<rparr>)
         | Rejected error \<Rightarrow>
             Alert_alert (OS e) ''Payment Failed''
               ''There was an error processing your payment. Please try again.''
               [\<lparr>btn_text = ''OK'', onPress = None\<rparr>]
               (s\<lparr>inflight := removeAt k (inflight s)\<rparr>))
      else s)"

text \<open>Pressing button \<open>b\<close> of the \<open>a\<close>-th alert dismisses the alert and runs its handler.\<close>

definition pressButton :: "nat \<Rightarrow> nat \<Rightarrow> bag \<Rightarrow> bag" where
  "pressButton a b s =
     (if a < length (alerts s) \<and> b < length (buttons (alerts s ! a)) then
        (case onPress (buttons (alerts s ! a) ! b) of
           Some ClearCart \<Rightarrow> setCartItems (\<lambda>_. []) (s\<lparr>alerts := removeAt a (alerts s)\<rparr>)
         | None \<Rightarrow> s\<lparr>alerts := removeAt a (alerts s)\<rparr>)
      else s)"

text \<open>The events of the screen, and the screen's reaction to a sequence of them.\<close>

datatype event =
    TapIncrement int
  | TapDecrement int
  | TapCheckout
  | Settle nat settlement
  | TapAlertButton nat nat

fun step :: "env \<Rightarrow> bag \<Rightarrow> event \<Rightarrow> bag" where
  "step e s (TapIncrement i) = setCartItems (incrementQuantity i) s"
| "step e s (TapDecrement i) = setCartItems (decrementQuantity i) s"
| "step e s TapCheckout = handlePayPalPayment e s"
| "step e s (Settle k r) = settle e k r s"
| "step e s (TapAlertButton a b) = pressButton a b s"

definition run :: "env \<Rightarrow> bag \<Rightarrow> event list \<Rightarrow> bag" where
  "run e s evs = foldl (step e) s evs"

section \<open>Notions the properties are stated with\<close>

text \<open>
  The rational a finite Number denotes, and the sum of price times quantity over the items
  of a cart taken in the rationals, where nothing is rounded: the subtotal of exact
  arithmetic.
\<close>

definition valueOf :: "number \<Rightarrow> rat" where
  "valueOf a = (case a of Fin x \<Rightarrow> x | _ \<Rightarrow> 0)"

definition exactSubtotal :: "item list \<Rightarrow> rat" where
  "exactSubtotal c = sum_list (map (\<lambda>item. valueOf (price item) * valueOf (quantity item)) c)"

text \<open>
  A price as the data model has it: a Number, that is a rational which is its own binary64
  value, and not a negative one. Every finite binary64 value is a multiple of \<open>2\<^sup>-\<^sup>1\<^sup>0\<^sup>7\<^sup>4\<close>.
\<close>

definition isPrice :: "number \<Rightarrow> bool" where
  "isPrice a = (case a of Fin x \<Rightarrow> 0 \<le> x \<and> roundToDouble x = Fin x | _ \<Rightarrow> False)"

definition onGrid :: "rat \<Rightarrow> bool" where
  "onGrid x \<longleftrightarrow> of_int \<lfloor>x * 2 ^ 1074\<rfloor> = x * 2 ^ 1074"

text \<open>
  A quantity as the data model has it, an integer from 1 on; one below \<open>2\<^sup>5\<^sup>3\<close>, the range in
  which every integer and its successor are binary64 values; an amount in whole units, an
  integer from 0 on; the integer such a Number stands for; and the test \<open>q \<ge> 1\<close> written
  with the comparison of the source.
\<close>

definition isCount :: "number \<Rightarrow> bool" where
  "isCount q = (case q of Fin x \<Rightarrow> 1 \<le> x \<and> of_int \<lfloor>x\<rfloor> = x | _ \<Rightarrow> False)"

definition isSafeCount :: "number \<Rightarrow> bool" where
  "isSafeCount q =
     (case q of Fin x \<Rightarrow> 1 \<le> x \<and> x < 2 ^ 53 \<and> of_int \<lfloor>x\<rfloor> = x | _ \<Rightarrow> False)"

definition isWhole :: "number \<Rightarrow> bool" where
  "isWhole q = (case q of Fin x \<Rightarrow> 0 \<le> x \<and> of_int \<lfloor>x\<rfloor> = x | _ \<Rightarrow> False)"

definition countOf :: "number \<Rightarrow> int" where
  "countOf q = (case q of Fin x \<Rightarrow> \<lfloor>x\<rfloor> | _ \<Rightarrow> 0)"

definition atLeastOne :: "number \<Rightarrow> bool" where
  "atLeastOne q \<longleftrightarrow> jsGreater q (lit 1) \<or> q = lit 1"

text \<open>
  What increments and decrements keep true of a quantity: it is a count, or the infinity
  that adding to a count beyond the binary64 range gives.
\<close>

definition countOrInf :: "number \<Rightarrow> bool" where
  "countOrInf q \<longleftrightarrow> q = PInf \<or> isCount q"

text \<open>
  The state between two events: the memo was computed from the array now in the state
  cell, and the identities in use are below \<open>heapNext\<close>.
\<close>

definition rendered :: "bag \<Rightarrow> bool" where
  "rendered s \<longleftrightarrow>
     memoDeps s = cartItemsRef s \<and> memoValue s = computeTotals (cartItems s) \<and>
     cartItemsRef s < heapNext s"


section \<open>Facts about the Number arithmetic\<close>

lemma floor_rat_numeral [simp]:
  "\<lfloor>numeral a / numeral b :: rat\<rfloor> = numeral a div numeral b"
  by (metis floor_divide_of_int_eq of_int_numeral)

lemma of_nat_ge2: "2 \<le> b \<Longrightarrow> (2::rat) \<le> of_nat b"
  by (metis of_nat_le_iff of_nat_numeral)

text \<open>\<open>ilog\<close> meets its specification, and the exponent is unique.\<close>

lemma ilog_up_spec:
  "2 \<le> b \<Longrightarrow> 1 \<le> x \<Longrightarrow>
     0 \<le> ilog_up b x \<and> of_nat b powi ilog_up b x \<le> x \<and> x < of_nat b powi (ilog_up b x + 1)"
proof (induction b x rule: ilog_up.induct)
  case (1 b x)
  have B: "(2::rat) \<le> of_nat b" using "1.prems"(1) by (rule of_nat_ge2)
  show ?case
  proof (cases "x < of_nat b")
    case True
    then have "ilog_up b x = 0" by (simp add: ilog_up.simps)
    then show ?thesis using True "1.prems" by simp
  next
    case False
    then have eq: "ilog_up b x = ilog_up b (x / of_nat b) + 1"
      using "1.prems"(1) by (subst ilog_up.simps) simp
    define k where "k = ilog_up b (x / of_nat b)"
    have "1 \<le> x / of_nat b" using False B by (simp add: le_divide_eq)
    with "1.IH" False "1.prems"(1)
    have IH: "0 \<le> k" "of_nat b powi k \<le> x / of_nat b" "x / of_nat b < of_nat b powi (k + 1)"
      unfolding k_def by auto
    have p1: "of_nat b powi (k + 1) = of_nat b powi k * (of_nat b :: rat)"
      using B by (intro power_int_add_1) auto
    have p2: "of_nat b powi (k + 1 + 1) = of_nat b powi (k + 1) * (of_nat b :: rat)"
      using B by (intro power_int_add_1) auto
    have "of_nat b powi k * of_nat b \<le> x"
      using IH(2) B by (simp add: le_divide_eq)
    then have "of_nat b powi (k + 1) \<le> x" by (simp only: p1)
    moreover have "x < of_nat b powi (k + 1) * of_nat b"
      using IH(3) B by (simp add: divide_less_eq)
    then have "x < of_nat b powi (k + 1 + 1)" by (simp only: p2)
    ultimately show ?thesis using IH(1) unfolding eq k_def by simp
  qed
qed

lemma ilog_down_spec:
  "2 \<le> b \<Longrightarrow> 0 < x \<Longrightarrow> x < 1 \<Longrightarrow>
     ilog_down b x < 0 \<and> of_nat b powi ilog_down b x \<le> x \<and> x < of_nat b powi (ilog_down b x + 1)"
proof (induction b x rule: ilog_down.induct)
  case (1 b x)
  have B: "(2::rat) \<le> of_nat b" using "1.prems"(1) by (rule of_nat_ge2)
  have eq: "ilog_down b x = ilog_down b (x * of_nat b) - 1"
    using "1.prems" by (subst ilog_down.simps) simp
  have pos: "0 < x * of_nat b" using "1.prems"(2) B by simp
  show ?case
  proof (cases "1 \<le> x * of_nat b")
    case True
    then have z: "ilog_down b (x * of_nat b) = 0" by (simp add: ilog_down.simps)
    have "of_nat b powi (- 1) \<le> x"
      using True B by (simp add: power_int_minus_divide pos_divide_le_eq)
    then show ?thesis using "1.prems" unfolding eq z by simp
  next
    case False
    define k where "k = ilog_down b (x * of_nat b)"
    from False "1.IH" "1.prems" pos
    have IH: "k < 0" "of_nat b powi k \<le> x * of_nat b" "x * of_nat b < of_nat b powi (k + 1)"
      unfolding k_def by auto
    have p1: "of_nat b powi k = of_nat b powi (k - 1) * (of_nat b :: rat)"
      using B power_int_add_1 [of "of_nat b :: rat" "k - 1"] by auto
    have p2: "of_nat b powi (k + 1) = of_nat b powi k * (of_nat b :: rat)"
      using B by (intro power_int_add_1) auto
    have "of_nat b powi (k - 1) * of_nat b \<le> x * of_nat b"
      using IH(2) by (simp only: p1 [symmetric])
    then have "of_nat b powi (k - 1) \<le> x" using B by simp
    moreover have "x * of_nat b < of_nat b powi k * of_nat b"
      using IH(3) by (simp only: p2)
    then have "x < of_nat b powi k" using B by simp
    ultimately show ?thesis using IH(1) unfolding eq k_def by simp
  qed
qed

lemma powi_less_cancel: "1 < (a::rat) \<Longrightarrow> a powi m < a powi n \<Longrightarrow> m < n"
  using power_int_increasing [of n m a] by (cases "m < n") auto

lemma powi_le_cancel: "1 < (a::rat) \<Longrightarrow> a powi m \<le> a powi n \<Longrightarrow> m \<le> n"
  using power_int_strict_increasing [of n m a] by (cases "m \<le> n") auto

lemma ilog_spec:
  assumes "2 \<le> b" "0 < x"
  shows "of_nat b powi ilog b x \<le> x" and "x < of_nat b powi (ilog b x + 1)"
  using assms ilog_up_spec [of b x] ilog_down_spec [of b x]
  by (auto simp: ilog_def not_le)

lemma ilog_unique:
  assumes b: "2 \<le> b" and x: "0 < x"
    and lo: "of_nat b powi e \<le> x" and hi: "x < of_nat b powi (e + 1)"
  shows "ilog b x = e"
proof -
  have B: "(1::rat) < of_nat b" using of_nat_ge2 [OF b] by simp
  have "of_nat b powi ilog b x < (of_nat b :: rat) powi (e + 1)"
    using ilog_spec(1) [OF b x] hi by simp
  then have a: "ilog b x < e + 1" using B by (rule powi_less_cancel [rotated])
  have "of_nat b powi e < (of_nat b :: rat) powi (ilog b x + 1)"
    using ilog_spec(2) [OF b x] lo by simp
  then have "e < ilog b x + 1" using B by (rule powi_less_cancel [rotated])
  with a show ?thesis by simp
qed

text \<open>
  Rounding a positive number, given its binary exponent: the form in which concrete
  roundings are computed below.
\<close>

lemma roundHalfEven_of_int [simp]: "roundHalfEven (of_int k) = k"
  by (simp add: roundHalfEven_def)

lemma roundHalfEven_ge_floor: "\<lfloor>x\<rfloor> \<le> roundHalfEven x"
  by (simp add: roundHalfEven_def Let_def)

lemma roundToDouble_pos:
  assumes "0 < x"
  shows "roundToDouble x =
           (let u = 2 powi (max (ilog 2 x) (- 1022) - 52);
                y = of_int (roundHalfEven (x / u)) * u
            in if 2 ^ 1024 \<le> y then PInf else Fin y)"
  using assms by (simp add: roundToDouble_def Let_def)

lemma roundToDouble_at:
  assumes "0 < x" "2 powi e \<le> x" "x < 2 powi (e + 1)"
  shows "roundToDouble x =
           (let u = 2 powi (max e (- 1022) - 52);
                y = of_int (roundHalfEven (x / u)) * u
            in if 2 ^ 1024 \<le> y then PInf else Fin y)"
proof -
  have "ilog 2 x = e" using assms by (intro ilog_unique) auto
  then show ?thesis using roundToDouble_pos [OF assms(1)] by simp
qed

lemmas round_defs = roundHalfEven_def Let_def

lemmas round_at = roundToDouble_at [where e = 0] roundToDouble_at [where e = 1]
  roundToDouble_at [where e = 2] roundToDouble_at [where e = 3] roundToDouble_at [where e = 5]
  roundToDouble_at [where e = 6] roundToDouble_at [where e = 7] roundToDouble_at [where e = 8]

text \<open>
  The integers up to \<open>2\<^sup>5\<^sup>3\<close> are binary64 values, and rounding an integer from 1 on gives an
  integer from 1 on, or the infinity.
\<close>

lemma roundToDouble_int:
  assumes n1: "1 \<le> n" and n53: "n \<le> 2 ^ 53"
  shows "roundToDouble (of_int n) = Fin (of_int n)"
proof -
  define x :: rat where "x = of_int n"
  define e where "e = ilog 2 x"
  have x1: "1 \<le> x" using n1 by (simp add: x_def)
  then have x0: "0 < x" by simp
  have x53: "x \<le> 2 ^ 53"
  proof -
    have "(of_int n :: rat) \<le> of_int (2 ^ 53)" using n53 by (simp only: of_int_le_iff)
    then show ?thesis by (simp add: x_def)
  qed
  have lo: "2 powi e \<le> x" and hi: "x < 2 powi (e + 1)"
    using ilog_spec [of 2 x] x0 by (simp_all add: e_def)
  have "(2::rat) powi 0 < 2 powi (e + 1)" using x1 hi by simp
  then have e0: "0 \<le> e" using powi_less_cancel [of 2 0 "e + 1"] by simp
  have "(2::rat) powi e \<le> 2 powi 53" using lo x53 by simp
  then have e53: "e \<le> 53" using powi_le_cancel [of 2 e 53] by simp
  define u :: rat where "u = 2 powi (e - 52)"
  have u0: "0 < u" by (simp add: u_def)
  have "\<exists>k. x / u = of_int k"
  proof (cases "e \<le> 52")
    case True
    have "x / u = x * 2 powi (52 - e)"
      by (simp add: u_def power_int_diff field_simps)
    also have "\<dots> = of_int n * 2 ^ nat (52 - e)"
      using True by (simp add: x_def power_int_def)
    also have "\<dots> = of_int (n * 2 ^ nat (52 - e))" by simp
    finally show ?thesis by blast
  next
    case False
    with e53 have e: "e = 53" by simp
    have "(2::rat) ^ 53 \<le> x" using lo by (simp add: e)
    with x53 have "x = 2 ^ 53" by simp
    then have "x / u = of_int (2 ^ 52)" by (simp add: u_def e)
    then show ?thesis by blast
  qed
  then obtain k where k: "x / u = of_int k" ..
  then have y: "of_int (roundHalfEven (x / u)) * u = x" using u0 by (simp add: field_simps)
  have "\<not> (2::rat) ^ 1024 \<le> x" using x53 by simp
  then have "roundToDouble x = Fin x"
    using roundToDouble_pos [OF x0] e0 y by (simp add: Let_def e_def [symmetric] u_def [symmetric])
  then show ?thesis by (simp add: x_def)
qed

lemma roundToDouble_int_ge1:
  assumes n1: "1 \<le> n"
  shows "roundToDouble (of_int n) = PInf \<or> (\<exists>k. 1 \<le> k \<and> roundToDouble (of_int n) = Fin (of_int k))"
proof (cases "n \<le> 2 ^ 53")
  case True
  with n1 roundToDouble_int show ?thesis by blast
next
  case False
  define x :: rat where "x = of_int n"
  define e where "e = ilog 2 x"
  have "(of_int (2 ^ 53) :: rat) < of_int n" using False by (simp only: of_int_less_iff)
  then have x53: "2 ^ 53 < x" by (simp add: x_def)
  have "(0::rat) < 2 ^ 53" by simp
  with x53 have x0: "0 < x" by linarith
  have lo: "2 powi e \<le> x" and hi: "x < 2 powi (e + 1)"
    using ilog_spec [of 2 x] x0 by (simp_all add: e_def)
  have "(2::rat) powi 53 < 2 powi (e + 1)" using x53 hi by simp
  then have e53: "53 \<le> e" using powi_less_cancel [of 2 53 "e + 1"] by simp
  define u :: rat where "u = 2 powi (e - 52)"
  define m where "m = roundHalfEven (x / u)"
  have u0: "0 < u" by (simp add: u_def)
  have u_int: "u = of_int (2 ^ nat (e - 52))" using e53 by (simp add: u_def power_int_def)
  have "(2::rat) powi e / u = 2 powi 52" by (simp add: u_def power_int_diff)
  then have "2 powi 52 \<le> x / u" using lo u0 by (metis divide_right_mono less_imp_le)
  then have "(1::rat) \<le> x / u" by simp
  then have "(1::int) \<le> \<lfloor>x / u\<rfloor>" by (simp add: le_floor_iff)
  then have m1: "1 \<le> m" using roundHalfEven_ge_floor [of "x / u"] unfolding m_def by linarith
  have y: "of_int m * u = of_int (m * 2 ^ nat (e - 52))" by (simp add: u_int)
  have "(1::int) \<le> 2 ^ nat (e - 52)" by simp
  with m1 have "1 * 1 \<le> m * 2 ^ nat (e - 52)" by (intro mult_mono) simp_all
  then have k1: "1 \<le> m * 2 ^ nat (e - 52)" by simp
  have "roundToDouble x = (if 2 ^ 1024 \<le> of_int m * u then PInf else Fin (of_int m * u))"
    using roundToDouble_pos [OF x0] e53
    by (simp add: Let_def e_def [symmetric] u_def [symmetric] m_def [symmetric])
  then have "roundToDouble x = PInf \<or> roundToDouble x = Fin (of_int (m * 2 ^ nat (e - 52)))"
    unfolding y by (auto simp only: split: if_splits)
  then show ?thesis using k1 unfolding x_def by blast
qed

lemma roundToDouble_whole:
  assumes "0 \<le> n" and "n \<le> 2 ^ 53"
  shows "roundToDouble (of_int n) = Fin (of_int n)"
proof (cases "n = 0")
  case True
  then show ?thesis by (simp add: roundToDouble_def)
next
  case False
  with assms show ?thesis by (intro roundToDouble_int) auto
qed

lemma lit_numeral: "(numeral k :: int) \<le> 2 ^ 53 \<Longrightarrow> lit (numeral k) = Fin (numeral k)"
  using roundToDouble_int [of "numeral k"] by (simp add: lit_def)

lemma lit_0: "lit 0 = Fin 0" by (simp add: lit_def roundToDouble_def)

lemma lit_1: "lit 1 = Fin 1" using roundToDouble_int [of 1] by (simp add: lit_def)

subsection \<open>The arithmetic on well-known values\<close>

text \<open>
  The Number 0.1, the sum \<^verbatim>\<open>0.1 + 0.2\<close>, which is not the Number 0.3, and
  \<^verbatim>\<open>(1.005).toFixed(2)\<close>, which is 1.00.
\<close>

lemma tenth: "lit (1 / 10) = Fin (3602879701896397 / 36028797018963968)"
  by (simp add: lit_def roundToDouble_at [where e = "- 4"] round_defs)

lemma tenth_plus_fifth:
  "jsAdd (lit (1 / 10)) (lit (2 / 10)) = Fin (1351079888211149 / 4503599627370496) \<and>
   lit (3 / 10) = Fin (5404319552844595 / 18014398509481984) \<and>
   jsAdd (lit (1 / 10)) (lit (2 / 10)) \<noteq> lit (3 / 10)"
  by (simp add: jsAdd_def lit_def roundToDouble_at [where e = "- 4"]
      roundToDouble_at [where e = "- 3"] roundToDouble_at [where e = "- 2"] round_defs)

lemma toFixed_1005: "toFixed (lit (1005 / 1000)) 2 = ''1.00''"
  by (simp add: lit_def roundToDouble_at [where e = 0] round_defs toFixed_def digits.simps)

subsection \<open>Counts\<close>

lemma isCount_iff: "isCount q \<longleftrightarrow> (\<exists>n. 1 \<le> n \<and> q = Fin (of_int n))"
proof
  assume "isCount q"
  then obtain x where q: "q = Fin x" and x: "1 \<le> x" "of_int \<lfloor>x\<rfloor> = x"
    by (auto simp: isCount_def split: number.splits)
  have "1 \<le> \<lfloor>x\<rfloor>" using x(1) by (simp add: le_floor_iff)
  with q x(2) show "\<exists>n. 1 \<le> n \<and> q = Fin (of_int n)" by metis
next
  assume "\<exists>n. 1 \<le> n \<and> q = Fin (of_int n)"
  then show "isCount q" by (auto simp: isCount_def)
qed

lemma isSafeCount_iff: "isSafeCount q \<longleftrightarrow> (\<exists>n. 1 \<le> n \<and> n < 2 ^ 53 \<and> q = Fin (of_int n))"
proof
  assume "isSafeCount q"
  then obtain x where q: "q = Fin x" and x: "1 \<le> x" "x < 2 ^ 53" "of_int \<lfloor>x\<rfloor> = x"
    by (auto simp: isSafeCount_def split: number.splits)
  have "1 \<le> \<lfloor>x\<rfloor>" using x(1) by (simp add: le_floor_iff)
  moreover have "\<lfloor>x\<rfloor> < 2 ^ 53" using x(2) by (simp add: floor_less_iff)
  ultimately show "\<exists>n. 1 \<le> n \<and> n < 2 ^ 53 \<and> q = Fin (of_int n)" using q x(3) by metis
next
  assume "\<exists>n. 1 \<le> n \<and> n < 2 ^ 53 \<and> q = Fin (of_int n)"
  then obtain n where n: "1 \<le> n" "n < 2 ^ 53" "q = Fin (of_int n)" by blast
  have "(of_int n :: rat) < of_int (2 ^ 53)" using n(2) by (simp only: of_int_less_iff)
  then show "isSafeCount q" using n by (simp add: isSafeCount_def)
qed

lemma increment_exact:
  assumes "1 \<le> n" "n < 2 ^ 53"
  shows "jsAdd (Fin (of_int n)) (lit 1) = Fin (of_int n + 1)"
  using roundToDouble_int [of "n + 1"] assms by (simp add: jsAdd_def lit_1)

lemma decrement_exact:
  assumes "1 < n" "n \<le> 2 ^ 53"
  shows "jsSub (Fin (of_int n)) (lit 1) = Fin (of_int n - 1)"
  using roundToDouble_int [of "n - 1"] assms by (simp add: jsSub_def jsNeg_def jsAdd_def lit_1)

lemma countOrInf_increment: "countOrInf q \<Longrightarrow> countOrInf (jsAdd q (lit 1))"
proof -
  assume "countOrInf q"
  then consider "q = PInf" | n where "1 \<le> n" "q = Fin (of_int n)"
    by (auto simp: countOrInf_def isCount_iff)
  then show ?thesis
  proof cases
    case 1
    then show ?thesis by (simp add: jsAdd_def lit_1 countOrInf_def)
  next
    case 2
    have "jsAdd q (lit 1) = roundToDouble (of_int (n + 1))"
      using 2 by (simp add: jsAdd_def lit_1)
    then show ?thesis
      using roundToDouble_int_ge1 [of "n + 1"] 2(1)
      by (auto simp: countOrInf_def isCount_iff)
  qed
qed

lemma countOrInf_decrement:
  "countOrInf q \<Longrightarrow> jsGreater q (lit 1) \<Longrightarrow> countOrInf (jsSub q (lit 1))"
proof -
  assume c: "countOrInf q" and g: "jsGreater q (lit 1)"
  from c consider "q = PInf" | n where "1 \<le> n" "q = Fin (of_int n)"
    by (auto simp: countOrInf_def isCount_iff)
  then show ?thesis
  proof cases
    case 1
    then show ?thesis by (simp add: jsSub_def jsNeg_def jsAdd_def lit_1 countOrInf_def)
  next
    case 2
    have "1 < n" using g 2 by (simp add: jsGreater_def lit_1)
    moreover have "jsSub q (lit 1) = roundToDouble (of_int (n - 1))"
      using 2 by (simp add: jsSub_def jsNeg_def jsAdd_def lit_1)
    ultimately show ?thesis
      using roundToDouble_int_ge1 [of "n - 1"]
      by (auto simp: countOrInf_def isCount_iff)
  qed
qed

lemma countOrInf_atLeastOne: "countOrInf q \<Longrightarrow> atLeastOne q"
  by (auto simp: countOrInf_def isCount_iff atLeastOne_def jsGreater_def lit_1)

lemma counts_incrementQuantity:
  "list_all (\<lambda>item. countOrInf (quantity item)) items \<Longrightarrow>
   list_all (\<lambda>item. countOrInf (quantity item)) (incrementQuantity i items)"
  by (induction items) (simp_all add: incrementQuantity_def countOrInf_increment)

lemma counts_decrementQuantity:
  "list_all (\<lambda>item. countOrInf (quantity item)) items \<Longrightarrow>
   list_all (\<lambda>item. countOrInf (quantity item)) (decrementQuantity i items)"
  by (induction items) (simp_all add: decrementQuantity_def countOrInf_decrement)

lemma round_trip_item:
  assumes "isSafeCount (quantity item)"
  shows "jsGreater (jsAdd (quantity item) (lit 1)) (lit 1) \<and>
         item\<lparr>quantity := jsSub (jsAdd (quantity item) (lit 1)) (lit 1)\<rparr> = item"
proof -
  obtain n where n: "1 \<le> n" "n < 2 ^ 53" "quantity item = Fin (of_int n)"
    using assms by (auto simp: isSafeCount_iff)
  have inc: "jsAdd (quantity item) (lit 1) = Fin (of_int (n + 1))"
    using increment_exact [OF n(1,2)] n(3) by simp
  have "jsSub (Fin (of_int (n + 1))) (lit 1) = Fin (of_int (n + 1) - 1)"
    using n by (intro decrement_exact) auto
  then have dec: "jsSub (Fin (of_int (n + 1))) (lit 1) = quantity item" using n(3) by simp
  have "jsGreater (Fin (of_int (n + 1))) (lit 1)"
    using n(1) by (simp add: jsGreater_def lit_1)
  then show ?thesis unfolding inc dec by simp
qed

lemma countOf_nonneg: "list_all (\<lambda>item. isCount (quantity item)) c \<Longrightarrow>
  0 \<le> sum_list (map (\<lambda>item. countOf (quantity item)) c)"
  by (induction c) (auto simp: isCount_iff countOf_def)

lemma totalItems_exact:
  "list_all (\<lambda>item. isCount (quantity item)) c \<Longrightarrow>
   sum_list (map (\<lambda>item. countOf (quantity item)) c) \<le> 2 ^ 53 \<Longrightarrow>
   foldl (\<lambda>sum item. jsAdd sum (quantity item)) (lit 0) c =
     Fin (of_int (sum_list (map (\<lambda>item. countOf (quantity item)) c)))"
proof (induction c rule: rev_induct)
  case Nil
  show ?case by (simp add: lit_0)
next
  case (snoc x xs)
  define S where "S = sum_list (map (\<lambda>item. countOf (quantity item)) xs)"
  from snoc.prems(1) have cx: "isCount (quantity x)"
    and cxs: "list_all (\<lambda>item. isCount (quantity item)) xs" by simp_all
  from cx obtain n where n: "1 \<le> n" "quantity x = Fin (of_int n)"
    by (auto simp: isCount_iff)
  have cn: "countOf (quantity x) = n" using n by (simp add: countOf_def)
  have S0: "0 \<le> S" using countOf_nonneg [OF cxs] by (simp add: S_def)
  have tot: "S + n \<le> 2 ^ 53" using snoc.prems(2) cn by (simp add: S_def)
  then have "S \<le> 2 ^ 53" using n(1) by linarith
  with snoc.IH cxs have IH: "foldl (\<lambda>sum item. jsAdd sum (quantity item)) (lit 0) xs = Fin (of_int S)"
    by (simp add: S_def)
  have "jsAdd (Fin (of_int S)) (Fin (of_int n)) = Fin (of_int (S + n))"
    using roundToDouble_int [of "S + n"] S0 n(1) tot by (simp add: jsAdd_def)
  then show ?case using IH n cn by (simp add: S_def)
qed

lemma isWhole_iff: "isWhole q \<longleftrightarrow> (\<exists>n. 0 \<le> n \<and> q = Fin (of_int n))"
proof
  assume "isWhole q"
  then obtain x where q: "q = Fin x" and x: "0 \<le> x" "of_int \<lfloor>x\<rfloor> = x"
    by (auto simp: isWhole_def split: number.splits)
  have "0 \<le> \<lfloor>x\<rfloor>" using x(1) by simp
  with q x(2) show "\<exists>n. 0 \<le> n \<and> q = Fin (of_int n)" by metis
next
  assume "\<exists>n. 0 \<le> n \<and> q = Fin (of_int n)"
  then show "isWhole q" by (auto simp: isWhole_def)
qed

lemma amounts_nonneg:
  "list_all (\<lambda>item. isWhole (price item) \<and> isCount (quantity item)) c \<Longrightarrow>
   0 \<le> sum_list (map (\<lambda>item. countOf (price item) * countOf (quantity item)) c)"
  by (induction c) (auto simp: isCount_iff isWhole_iff countOf_def)

lemma subtotal_exact:
  "list_all (\<lambda>item. isWhole (price item) \<and> isCount (quantity item)) c \<Longrightarrow>
   sum_list (map (\<lambda>item. countOf (price item) * countOf (quantity item)) c) \<le> 2 ^ 53 \<Longrightarrow>
   foldl (\<lambda>sum item. jsAdd sum (jsMul (price item) (quantity item))) (lit 0) c =
     Fin (of_int (sum_list (map (\<lambda>item. countOf (price item) * countOf (quantity item)) c)))"
proof (induction c rule: rev_induct)
  case Nil
  show ?case by (simp add: lit_0)
next
  case (snoc x xs)
  define S where "S = sum_list (map (\<lambda>item. countOf (price item) * countOf (quantity item)) xs)"
  from snoc.prems(1) have px: "isWhole (price x)" and cx: "isCount (quantity x)"
    and cxs: "list_all (\<lambda>item. isWhole (price item) \<and> isCount (quantity item)) xs"
    by simp_all
  from px obtain p where p: "0 \<le> p" "price x = Fin (of_int p)" by (auto simp: isWhole_iff)
  from cx obtain n where n: "1 \<le> n" "quantity x = Fin (of_int n)" by (auto simp: isCount_iff)
  have cp: "countOf (price x) = p" and cn: "countOf (quantity x) = n"
    using p n by (simp_all add: countOf_def)
  have P0: "0 \<le> p * n" using p(1) n(1) by simp
  have S0: "0 \<le> S" using amounts_nonneg [OF cxs] by (simp add: S_def)
  have tot: "S + p * n \<le> 2 ^ 53" using snoc.prems(2) cp cn by (simp add: S_def)
  have "S \<le> 2 ^ 53" and P53: "p * n \<le> 2 ^ 53" using tot S0 P0 by linarith+
  with snoc.IH cxs
  have IH: "foldl (\<lambda>sum item. jsAdd sum (jsMul (price item) (quantity item))) (lit 0) xs
      = Fin (of_int S)"
    by (simp add: S_def)
  have prod: "jsMul (price x) (quantity x) = Fin (of_int (p * n))"
    using roundToDouble_whole [OF P0 P53] p(2) n(2) by (simp add: jsMul_def)
  have "0 \<le> S + p * n" using S0 P0 by simp
  then have "jsAdd (Fin (of_int S)) (Fin (of_int (p * n))) = Fin (of_int (S + p * n))"
    using roundToDouble_whole [of "S + p * n"] tot by (simp add: jsAdd_def)
  then show ?case using IH prod cp cn by (simp add: S_def)
qed

subsection \<open>The rounding error of a sum\<close>

text \<open>
  Rounding to the nearest integer moves a number by at most one half; the finite results
  of \<open>roundToDouble\<close> are multiples of \<open>2\<^sup>-\<^sup>1\<^sup>0\<^sup>7\<^sup>4\<close>; and rounding such a multiple \<open>x \<ge> 0\<close>, up to
  \<open>2\<^sup>1\<^sup>0\<^sup>2\<^sup>3\<close>, gives a finite Number within \<open>x / 2\<^sup>5\<^sup>3\<close> of it (below \<open>2\<^sup>-\<^sup>1\<^sup>0\<^sup>2\<^sup>2\<close> it gives \<open>x\<close>
  itself).
\<close>

lemma onGrid_iff: "onGrid x \<longleftrightarrow> (\<exists>k::int. x * 2 ^ 1074 = of_int k)"
  unfolding onGrid_def by (metis floor_of_int)

lemma roundHalfEven_error: "\<bar>of_int (roundHalfEven x) - x\<bar> \<le> 1 / 2"
proof -
  have "of_int \<lfloor>x\<rfloor> \<le> x" "x < of_int \<lfloor>x\<rfloor> + 1" by linarith+
  then show ?thesis by (auto simp: roundHalfEven_def Let_def)
qed

lemma powi_grid:
  assumes "- 1022 \<le> e"
  shows "(2::rat) powi (e - 52) * 2 ^ 1074 = of_int (2 ^ nat (e + 1022))"
proof -
  have "(2::rat) powi (e - 52 + 1074) = 2 powi (e - 52) * 2 powi 1074"
    by (rule power_int_add) simp
  moreover have "(2::rat) powi 1074 = 2 ^ 1074" by simp
  moreover have "e - 52 + 1074 = int (nat (e + 1022))" using assms by simp
  then have "(2::rat) powi (e - 52 + 1074) = 2 ^ nat (e + 1022)"
    by (simp only: power_int_of_nat)
  ultimately show ?thesis by simp
qed

lemma roundToDouble_onGrid:
  assumes "roundToDouble x = Fin y"
  shows "onGrid y"
proof (cases "x = 0")
  case True
  with assms show ?thesis by (simp add: roundToDouble_def onGrid_def)
next
  case False
  define e where "e = max (ilog 2 \<bar>x\<bar>) (- 1022)"
  define u :: rat where "u = 2 powi (e - 52)"
  define m where "m = roundHalfEven (\<bar>x\<bar> / u)"
  have e: "- 1022 \<le> e" by (simp add: e_def)
  have "roundToDouble x =
      (if 2 ^ 1024 \<le> of_int m * u then (if 0 < x then PInf else NInf)
       else Fin (if 0 < x then of_int m * u else - (of_int m * u)))"
    unfolding m_def u_def e_def using False by (simp add: roundToDouble_def Let_def)
  with assms have "y = of_int m * u \<or> y = - (of_int m * u)"
    by (auto simp only: number.inject number.distinct split: if_splits)
  moreover have "of_int m * u * 2 ^ 1074 = of_int (m * 2 ^ nat (e + 1022))"
    using powi_grid [OF e] by (simp add: u_def)
  ultimately have "y * 2 ^ 1074 = of_int (m * 2 ^ nat (e + 1022)) \<or>
      y * 2 ^ 1074 = of_int (- (m * 2 ^ nat (e + 1022)))"
    by auto
  then show ?thesis unfolding onGrid_iff by blast
qed

lemma roundToDouble_error:
  assumes x0: "0 \<le> x" and g: "onGrid x" and xb: "x \<le> 2 ^ 1023"
  shows "\<exists>y. roundToDouble x = Fin y \<and> 0 \<le> y \<and> \<bar>y - x\<bar> \<le> x / 2 ^ 53"
proof (cases "x = 0")
  case True
  then show ?thesis by (simp add: roundToDouble_def)
next
  case False
  with x0 have xp: "0 < x" by simp
  define e0 where "e0 = ilog 2 x"
  define e where "e = max e0 (- 1022)"
  define u :: rat where "u = 2 powi (e - 52)"
  define m where "m = roundHalfEven (x / u)"
  define y where "y = of_int m * u"
  have u0: "0 < u" by (simp add: u_def)
  have rd: "roundToDouble x = (if 2 ^ 1024 \<le> y then PInf else Fin y)"
    using roundToDouble_pos [OF xp]
    by (simp add: Let_def e0_def [symmetric] e_def [symmetric] u_def [symmetric]
        m_def [symmetric] y_def [symmetric])
  have "0 \<le> x / u" using xp u0 by simp
  then have "0 \<le> \<lfloor>x / u\<rfloor>" by simp
  then have m0: "0 \<le> m" using roundHalfEven_ge_floor [of "x / u"] unfolding m_def by linarith
  have y0: "0 \<le> y" using m0 u0 by (simp add: y_def)
  have "y - x = (of_int m - x / u) * u" using u0 by (simp add: y_def field_simps)
  then have "\<bar>y - x\<bar> = \<bar>of_int m - x / u\<bar> * u" using u0 by (simp add: abs_mult)
  also have "\<dots> \<le> 1 / 2 * u"
    using roundHalfEven_error [of "x / u"] u0 unfolding m_def by (intro mult_right_mono) auto
  finally have half: "\<bar>y - x\<bar> \<le> u / 2" by simp
  have err: "\<bar>y - x\<bar> \<le> x / 2 ^ 53"
  proof (cases "- 1022 \<le> e0")
    case True
    then have "e = e0" by (simp add: e_def)
    then have "u = 2 powi e0 / 2 ^ 52" by (simp add: u_def power_int_diff)
    moreover have "2 powi e0 \<le> x" using ilog_spec(1) [of 2 x] xp by (simp add: e0_def)
    ultimately have "u / 2 \<le> x / 2 ^ 53" by simp
    with half show ?thesis by linarith
  next
    case False
    then have e: "e = - 1022" by (simp add: e_def)
    obtain k :: int where k: "x * 2 ^ 1074 = of_int k" using g unfolding onGrid_iff by blast
    have "u * 2 ^ 1074 = 1" using powi_grid [of e] by (simp add: u_def e)
    then have "x / u = x * 2 ^ 1074" using u0 by (simp add: field_simps)
    then have q: "x / u = of_int k" by (simp only: k)
    then have "m = k" by (simp only: m_def roundHalfEven_of_int)
    then have "y = x" using q u0 by (simp add: y_def field_simps)
    then show ?thesis using x0 by simp
  qed
  have "y \<le> x + x / 2 ^ 53" using err by linarith
  also have "\<dots> \<le> 2 ^ 1023 + 2 ^ 1023 / 2 ^ 53" using xb by (intro add_mono divide_right_mono) auto
  also have "\<dots> < 2 ^ 1024" by simp
  finally have "\<not> 2 ^ 1024 \<le> y" by simp
  with rd y0 err show ?thesis by simp
qed

lemma compound_bound:
  "of_nat m \<le> (2::rat) ^ 52 \<Longrightarrow> (1 + 1 / 2 ^ 53 :: rat) ^ m \<le> 1 + of_nat m / 2 ^ 52"
proof (induction m)
  case 0
  show ?case by simp
next
  case (Suc m)
  then have m: "of_nat m \<le> (2::rat) ^ 52" by simp
  define a :: rat where "a = of_nat m"
  have a0: "0 \<le> a" by (simp add: a_def)
  have "(1 + 1 / 2 ^ 53 :: rat) ^ Suc m = (1 + 1 / 2 ^ 53) ^ m * (1 + 1 / 2 ^ 53)" by simp
  also have "\<dots> \<le> (1 + a / 2 ^ 52) * (1 + 1 / 2 ^ 53)"
    using Suc.IH [OF m] by (intro mult_right_mono) (simp_all add: a_def)
  also have "\<dots> = 1 + a / 2 ^ 52 + 1 / 2 ^ 53 + a / 2 ^ 52 / 2 ^ 53" by (simp add: algebra_simps)
  also have "\<dots> \<le> 1 + a / 2 ^ 52 + 1 / 2 ^ 53 + 1 / 2 ^ 53"
    using m by (simp add: a_def)
  also have "\<dots> = 1 + of_nat (Suc m) / 2 ^ 52" by (simp add: a_def field_simps)
  finally show ?case .
qed

text \<open>
  The subtotal of \<open>n\<close> items is the result of \<open>n\<close> rounded products and \<open>n\<close> rounded
  additions, each item passing through at most \<open>n + 1\<close> roundings.
\<close>

lemma isPrice_iff: "isPrice a \<longleftrightarrow> (\<exists>x. a = Fin x \<and> 0 \<le> x \<and> roundToDouble x = Fin x)"
  by (cases a) (simp_all add: isPrice_def)

lemma onGrid_0: "onGrid 0"
  by (simp add: onGrid_def)

lemma onGrid_add: "onGrid x \<Longrightarrow> onGrid y \<Longrightarrow> onGrid (x + y)"
proof -
  assume "onGrid x" "onGrid y"
  then obtain k l :: int where "x * 2 ^ 1074 = of_int k" "y * 2 ^ 1074 = of_int l"
    unfolding onGrid_iff by blast
  then have "(x + y) * 2 ^ 1074 = of_int (k + l)" by (simp only: distrib_right of_int_add)
  then show ?thesis unfolding onGrid_iff by blast
qed

lemma onGrid_mult_int: "onGrid x \<Longrightarrow> onGrid (x * of_int n)"
proof -
  assume "onGrid x"
  then obtain k :: int where k: "x * 2 ^ 1074 = of_int k" unfolding onGrid_iff by blast
  have "x * of_int n * 2 ^ 1074 = x * 2 ^ 1074 * of_int n" by (simp only: mult_ac)
  also have "\<dots> = of_int (k * n)" by (simp only: k of_int_mult)
  finally show ?thesis unfolding onGrid_iff by blast
qed

lemma term_nonneg:
  "isPrice (price x) \<Longrightarrow> isCount (quantity x) \<Longrightarrow>
   0 \<le> valueOf (price x) * valueOf (quantity x)"
  by (auto simp: isPrice_iff isCount_iff valueOf_def)

lemma exactSubtotal_nonneg:
  "list_all (\<lambda>item. isPrice (price item) \<and> isCount (quantity item)) c \<Longrightarrow> 0 \<le> exactSubtotal c"
  by (induction c) (simp_all add: exactSubtotal_def term_nonneg)

lemma exactSubtotal_snoc:
  "exactSubtotal (xs @ [x]) = exactSubtotal xs + valueOf (price x) * valueOf (quantity x)"
  by (simp add: exactSubtotal_def)

lemma fold_error:
  assumes "list_all (\<lambda>item. isPrice (price item) \<and> isCount (quantity item)) c"
    and "(1 + 1 / 2 ^ 53) ^ Suc (length c) * exactSubtotal c \<le> 2 ^ 1023"
  shows "\<exists>y. foldl (\<lambda>sum item. jsAdd sum (jsMul (price item) (quantity item))) (lit 0) c = Fin y \<and>
           0 \<le> y \<and> onGrid y \<and>
           \<bar>y - exactSubtotal c\<bar> \<le> ((1 + 1 / 2 ^ 53) ^ Suc (length c) - 1) * exactSubtotal c"
  using assms
proof (induction c rule: rev_induct)
  case Nil
  show ?case by (simp add: lit_0 onGrid_0 exactSubtotal_def)
next
  case (snoc x xs)
  define eps :: rat where "eps = 1 / 2 ^ 53"
  define b where "b = (1 + eps) ^ Suc (length xs)"
  define S where "S = exactSubtotal xs"
  define P where "P = valueOf (price x) * valueOf (quantity x)"
  have eps0: "0 < eps" by (simp add: eps_def)
  have b1: "1 + eps \<le> b"
  proof -
    have "1 \<le> (1 + eps) ^ length xs" using eps0 by (intro one_le_power) simp
    then have "1 * (1 + eps) \<le> (1 + eps) ^ length xs * (1 + eps)"
      using eps0 by (intro mult_right_mono) simp_all
    then show ?thesis by (simp add: b_def mult.commute)
  qed
  from snoc.prems(1) have px: "isPrice (price x)" and cx: "isCount (quantity x)"
    and cxs: "list_all (\<lambda>item. isPrice (price item) \<and> isCount (quantity item)) xs"
    by simp_all
  have S0: "0 \<le> S" using exactSubtotal_nonneg [OF cxs] by (simp add: S_def)
  have P0: "0 \<le> P" using term_nonneg [OF px cx] by (simp add: P_def)
  have big: "b * (1 + eps) * (S + P) \<le> 2 ^ 1023"
    using snoc.prems(2) by (simp add: exactSubtotal_snoc b_def S_def P_def eps_def mult_ac)
  have bSP: "b * (S + P) \<le> 2 ^ 1023"
  proof -
    have "0 \<le> b * (S + P)" using b1 eps0 S0 P0 by simp
    then have "b * (S + P) * 1 \<le> b * (S + P) * (1 + eps)"
      using eps0 by (intro mult_left_mono) simp_all
    with big show ?thesis by (simp add: mult_ac)
  qed
  have bS: "b * S \<le> 2 ^ 1023"
  proof -
    have "b * S \<le> b * (S + P)" using b1 eps0 P0 by (intro mult_left_mono) simp_all
    with bSP show ?thesis by linarith
  qed
  have SP: "S + P \<le> 2 ^ 1023"
  proof -
    have "1 * (S + P) \<le> b * (S + P)" using b1 eps0 S0 P0 by (intro mult_right_mono) simp_all
    with bSP show ?thesis by simp
  qed
  obtain y where y: "foldl (\<lambda>sum item. jsAdd sum (jsMul (price item) (quantity item))) (lit 0) xs
        = Fin y" "0 \<le> y" "onGrid y" "\<bar>y - S\<bar> \<le> (b - 1) * S"
    using snoc.IH [OF cxs] bS unfolding b_def S_def eps_def by auto
  from px obtain p where p: "price x = Fin p" "0 \<le> p" "roundToDouble p = Fin p"
    by (auto simp: isPrice_iff)
  from cx obtain n where n: "1 \<le> n" "quantity x = Fin (of_int n)" by (auto simp: isCount_iff)
  have Pv: "P = p * of_int n" using p n by (simp add: P_def valueOf_def)
  have gP: "onGrid P" unfolding Pv by (intro onGrid_mult_int roundToDouble_onGrid [OF p(3)])
  have "P \<le> 2 ^ 1023" using SP S0 by linarith
  from roundToDouble_error [OF P0 gP this]
  obtain t where t: "roundToDouble P = Fin t" "0 \<le> t" "\<bar>t - P\<bar> \<le> eps * P"
    by (auto simp: eps_def)
  have gt: "onGrid t" using t(1) by (rule roundToDouble_onGrid)
  have prod: "jsMul (price x) (quantity x) = Fin t" using p n t(1) by (simp add: jsMul_def Pv)
  have ePbP: "(1 + eps) * P \<le> b * P" using b1 P0 by (intro mult_right_mono)
  have epsP: "eps * P \<le> (b - 1) * P" using b1 P0 by (intro mult_right_mono) simp_all
  have "(b - 1) * S = b * S - S" by (simp add: algebra_simps)
  with y(4) have yb: "y \<le> b * S" by linarith
  have "(1 + eps) * P = P + eps * P" by (simp add: algebra_simps)
  with t(3) have tb: "t \<le> (1 + eps) * P" by linarith
  have x0: "0 \<le> y + t" using y(2) t(2) by simp
  have gx: "onGrid (y + t)" using y(3) gt by (rule onGrid_add)
  have xb: "y + t \<le> b * (S + P)" using yb tb ePbP by (simp add: algebra_simps)
  then have "y + t \<le> 2 ^ 1023" using bSP by linarith
  from roundToDouble_error [OF x0 gx this]
  obtain z where z: "roundToDouble (y + t) = Fin z" "0 \<le> z" "\<bar>z - (y + t)\<bar> \<le> eps * (y + t)"
    by (auto simp: eps_def)
  have gz: "onGrid z" using z(1) by (rule roundToDouble_onGrid)
  have "eps * (y + t) \<le> eps * (b * (S + P))" using xb eps0 by (intro mult_left_mono) simp_all
  with z(3) have zerr: "\<bar>z - (y + t)\<bar> \<le> eps * b * (S + P)" by (simp add: mult_ac)
  have "\<bar>z - (S + P)\<bar> \<le> \<bar>z - (y + t)\<bar> + \<bar>y - S\<bar> + \<bar>t - P\<bar>" by linarith
  also have "\<dots> \<le> eps * b * (S + P) + (b - 1) * S + (b - 1) * P"
    using zerr y(4) t(3) epsP by linarith
  also have "\<dots> = (b * (1 + eps) - 1) * (S + P)" by (simp add: algebra_simps)
  finally have err: "\<bar>z - (S + P)\<bar> \<le> (b * (1 + eps) - 1) * (S + P)" .
  have "foldl (\<lambda>sum item. jsAdd sum (jsMul (price item) (quantity item))) (lit 0) (xs @ [x])
      = Fin z"
    using y(1) prod z(1) by (simp add: jsAdd_def)
  moreover have "(1 + 1 / 2 ^ 53) ^ Suc (length (xs @ [x])) = b * (1 + eps)"
    by (simp add: b_def eps_def)
  ultimately show ?case
    using z(2) gz err by (simp only: exactSubtotal_snoc S_def [symmetric] P_def [symmetric]) blast
qed

lemma fold_error_linear:
  assumes ok: "list_all (\<lambda>item. isPrice (price item) \<and> isCount (quantity item)) c"
    and len: "length c < 2 ^ 52"
    and top: "exactSubtotal c \<le> 2 ^ 1022"
  shows "\<exists>y. foldl (\<lambda>sum item. jsAdd sum (jsMul (price item) (quantity item))) (lit 0) c = Fin y \<and>
           \<bar>y - exactSubtotal c\<bar> \<le> of_nat (length c + 1) * exactSubtotal c / 2 ^ 52"
proof -
  define S where "S = exactSubtotal c"
  define b :: rat where "b = (1 + 1 / 2 ^ 53) ^ Suc (length c)"
  define d :: rat where "d = of_nat (Suc (length c)) / 2 ^ 52"
  have S0: "0 \<le> S" using exactSubtotal_nonneg [OF ok] by (simp add: S_def)
  have "Suc (length c) \<le> 2 ^ 52" using len by simp
  then have "(of_nat (Suc (length c)) :: rat) \<le> of_nat (2 ^ 52)" by (simp only: of_nat_le_iff)
  then have m: "(of_nat (Suc (length c)) :: rat) \<le> 2 ^ 52" by simp
  then have bd: "b \<le> 1 + d" unfolding b_def d_def by (rule compound_bound)
  have d1: "d \<le> 1" using m by (simp add: d_def)
  have "b * S \<le> (1 + d) * S" using bd S0 by (rule mult_right_mono)
  also have "\<dots> \<le> 2 * S" using d1 S0 by (intro mult_right_mono) simp_all
  also have "\<dots> \<le> 2 ^ 1023" using top by (simp add: S_def)
  finally have "b * S \<le> 2 ^ 1023" .
  then obtain y where y: "foldl (\<lambda>sum item. jsAdd sum (jsMul (price item) (quantity item))) (lit 0) c
      = Fin y" "\<bar>y - S\<bar> \<le> (b - 1) * S"
    using fold_error [OF ok] unfolding b_def S_def by blast
  have "(b - 1) * S \<le> d * S" using bd S0 by (intro mult_right_mono) simp_all
  with y(2) have "\<bar>y - S\<bar> \<le> d * S" by linarith
  then have "\<bar>y - S\<bar> \<le> of_nat (length c + 1) * S / 2 ^ 52" by (simp add: d_def)
  with y(1) show ?thesis unfolding S_def by blast
qed

lemma total_error:
  assumes ok: "list_all (\<lambda>item. isPrice (price item) \<and> isCount (quantity item)) c"
    and len: "length c < 2 ^ 32"
    and top: "exactSubtotal c + 15 \<le> 2 ^ 1022"
  shows "\<exists>z. jsAdd (foldl (\<lambda>sum item. jsAdd sum (jsMul (price item) (quantity item))) (lit 0) c)
             (lit 15) = Fin z \<and>
           \<bar>z - (exactSubtotal c + 15)\<bar> \<le> of_nat (length c + 2) * (exactSubtotal c + 15) / 2 ^ 52"
proof -
  define shipping where
    "shipping = \<lparr>item_id = 0, name = [], details = [], price = lit 15, quantity = lit 1\<rparr>"
  have l15: "lit 15 = Fin 15" by (simp add: lit_numeral)
  have r15: "roundToDouble 15 = Fin 15" using l15 by (simp add: lit_def)
  have "isPrice (price shipping)" "isCount (quantity shipping)"
    by (simp_all add: shipping_def l15 lit_1 isPrice_def isCount_def r15)
  with ok have ok': "list_all (\<lambda>item. isPrice (price item) \<and> isCount (quantity item))
      (c @ [shipping])"
    by simp
  have E: "exactSubtotal (c @ [shipping]) = exactSubtotal c + 15"
    by (simp add: exactSubtotal_snoc shipping_def l15 lit_1 valueOf_def)
  have "jsMul (price shipping) (quantity shipping) = lit 15"
    by (simp add: shipping_def l15 lit_1 jsMul_def r15)
  then have F: "foldl (\<lambda>sum item. jsAdd sum (jsMul (price item) (quantity item))) (lit 0)
      (c @ [shipping]) =
    jsAdd (foldl (\<lambda>sum item. jsAdd sum (jsMul (price item) (quantity item))) (lit 0) c) (lit 15)"
    by simp
  have "length (c @ [shipping]) < 2 ^ 52" using len by simp
  from fold_error_linear [OF ok' this] top
  show ?thesis unfolding E F by simp
qed

section \<open>Facts about the component state\<close>

lemma rendered_mount: "rendered (mount items)"
  by (simp add: rendered_def mount_def)

lemma rendered_setCartItems: "rendered s \<Longrightarrow> rendered (setCartItems f s)"
  by (simp add: rendered_def setCartItems_def useMemo_def)

lemma cartItems_setCartItems [simp]: "cartItems (setCartItems f s) = f (cartItems s)"
  by (simp add: setCartItems_def useMemo_def)

lemma inflight_setCartItems [simp]: "inflight (setCartItems f s) = inflight s"
  by (simp add: setCartItems_def useMemo_def)

lemma submitted_setCartItems [simp]: "submitted (setCartItems f s) = submitted s"
  by (simp add: setCartItems_def useMemo_def)

lemma alerts_setCartItems [simp]: "alerts (setCartItems f s) = alerts s"
  by (simp add: setCartItems_def useMemo_def)

lemma memoValue_setCartItems:
  "rendered s \<Longrightarrow> memoValue (setCartItems f s) = computeTotals (f (cartItems s))"
  by (simp add: setCartItems_def useMemo_def rendered_def)

lemma rendered_handlePayPalPayment: "rendered s \<Longrightarrow> rendered (handlePayPalPayment e s)"
  by (simp add: rendered_def handlePayPalPayment_def Alert_alert_def payWithPayPal_def)

lemma rendered_settle: "rendered s \<Longrightarrow> rendered (settle e k r s)"
  by (simp add: rendered_def settle_def Alert_alert_def split: settlement.split)

lemma rendered_pressButton: "rendered s \<Longrightarrow> rendered (pressButton a b s)"
proof -
  assume r: "rendered s"
  then have "rendered (s\<lparr>alerts := removeAt a (alerts s)\<rparr>)" by (simp add: rendered_def)
  then show ?thesis
    using r rendered_setCartItems [of "s\<lparr>alerts := removeAt a (alerts s)\<rparr>" "\<lambda>_. []"]
    by (simp add: pressButton_def split: option.split handler.split)
qed

lemma rendered_step: "rendered s \<Longrightarrow> rendered (step e s ev)"
  by (cases ev)
    (simp_all add: rendered_setCartItems rendered_handlePayPalPayment rendered_settle
      rendered_pressButton)

lemma rendered_foldl: "rendered s \<Longrightarrow> rendered (foldl (step e) s evs)"
  by (induction evs arbitrary: s) (simp_all add: rendered_step)

lemma rendered_run: "rendered (run e (mount items) evs)"
  by (simp add: run_def rendered_foldl rendered_mount)

lemma cartItems_handlePayPalPayment [simp]:
  "cartItems (handlePayPalPayment e s) = cartItems s"
  by (simp add: handlePayPalPayment_def Alert_alert_def payWithPayPal_def)

lemma cartItems_settle [simp]: "cartItems (settle e k r s) = cartItems s"
  by (simp add: settle_def Alert_alert_def split: settlement.split)

lemma cartItems_pressButton:
  "cartItems (pressButton a b s) = cartItems s \<or> cartItems (pressButton a b s) = []"
  by (simp add: pressButton_def split: option.split handler.split)

lemma removeAt_last [simp]: "removeAt (length xs) (xs @ [x]) = xs"
  by (simp add: removeAt_def)

text \<open>Counts stay counts, whatever the events.\<close>

lemma counts_step:
  assumes "list_all (\<lambda>item. countOrInf (quantity item)) (cartItems s)"
  shows "list_all (\<lambda>item. countOrInf (quantity item)) (cartItems (step e s ev))"
proof (cases ev)
  case (TapAlertButton a b)
  then show ?thesis using assms cartItems_pressButton [of a b s] by auto
qed (use assms in \<open>simp_all add: counts_incrementQuantity counts_decrementQuantity\<close>)

lemma counts_foldl:
  "list_all (\<lambda>item. countOrInf (quantity item)) (cartItems s) \<Longrightarrow>
   list_all (\<lambda>item. countOrInf (quantity item)) (cartItems (foldl (step e) s evs))"
  by (induction evs arbitrary: s) (simp_all add: counts_step)

lemma counts_run:
  assumes "list_all (\<lambda>item. isCount (quantity item)) items"
  shows "list_all (\<lambda>item. atLeastOne (quantity item)) (cartItems (run e (mount items) evs))"
proof -
  have "list_all (\<lambda>item. countOrInf (quantity item)) (cartItems (mount items))"
    using assms by (simp add: mount_def countOrInf_def list_all_iff)
  then have "list_all (\<lambda>item. countOrInf (quantity item)) (cartItems (run e (mount items) evs))"
    unfolding run_def by (rule counts_foldl)
  then show ?thesis by (simp add: list_all_iff countOrInf_atLeastOne)
qed





lemma inflight_checkouts:
  "OS e \<noteq> web \<Longrightarrow> PayPal e \<noteq> None \<Longrightarrow>
   length (inflight (foldl (step e) s (replicate n TapCheckout))) = length (inflight s) + n"
  by (induction n arbitrary: s) (auto simp: handlePayPalPayment_def payWithPayPal_def)

text \<open>
  On the web no dialog is ever on screen and no payment is ever submitted, so that no
  event removes an item of the cart.
\<close>

lemma web_step:
  assumes "OS e = web" and "alerts s = []" and "inflight s = []" and "submitted s = []"
  shows "alerts (step e s ev) = [] \<and> inflight (step e s ev) = [] \<and>
         submitted (step e s ev) = [] \<and>
         map item_id (cartItems (step e s ev)) = map item_id (cartItems s)"
  using assms
  by (cases ev)
    (simp_all add: handlePayPalPayment_def Alert_alert_def settle_def pressButton_def
      incrementQuantity_def decrementQuantity_def)

lemma web_foldl:
  assumes "OS e = web" and "alerts s = []" and "inflight s = []" and "submitted s = []"
  shows "alerts (foldl (step e) s evs) = [] \<and> inflight (foldl (step e) s evs) = [] \<and>
         submitted (foldl (step e) s evs) = [] \<and>
         map item_id (cartItems (foldl (step e) s evs)) = map item_id (cartItems s)"
  using assms
proof (induction evs arbitrary: s)
  case Nil
  then show ?case by simp
next
  case (Cons ev evs)
  from web_step [OF Cons.prems, of ev]
  have a: "alerts (step e s ev) = []" and i: "inflight (step e s ev) = []"
    and u: "submitted (step e s ev) = []"
    and c: "map item_id (cartItems (step e s ev)) = map item_id (cartItems s)"
    by simp_all
  from Cons.IH [OF Cons.prems(1) a i u] c show ?case by simp
qed

lemma web_run:
  assumes "OS e = web"
  shows "alerts (run e (mount items) evs) = [] \<and> inflight (run e (mount items) evs) = [] \<and>
         submitted (run e (mount items) evs) = [] \<and>
         map item_id (cartItems (run e (mount items) evs)) = map item_id items"
  using web_foldl [OF assms, of "mount items" evs] by (simp add: run_def mount_def)

subsection \<open>The initial cart, computed\<close>

lemma seed_totals:
  "computeTotals initialCartItems = (Fin (4605986150148997 / 17592186044416), Fin 6)"
  by (simp add: computeTotals_def reduce_def initialCartItems_def jsAdd_def jsMul_def
      lit_def roundToDouble_def [of 0] round_at round_defs)

lemma seed_subtotal: "subtotal BagScreen = Fin (4605986150148997 / 17592186044416)"
  by (simp add: BagScreen_def mount_def subtotal_def seed_totals)

lemma seed_totalItems: "totalItems BagScreen = Fin 6"
  by (simp add: BagScreen_def mount_def totalItems_def seed_totals)

lemma seed_total: "total BagScreen = Fin (4869868940815237 / 17592186044416)"
  by (simp add: total_def seed_subtotal SHIPPING_COST_def jsAdd_def lit_def round_at round_defs)

lemma seed_amount: "toFixed (total BagScreen) 2 = ''276.82''"
  by (simp add: seed_total toFixed_def digits.simps)

lemma shortest_hit:
  "candidates x (Suc 0) = [(n, s)] \<Longrightarrow> shortest x (Suc 0) 17 = (n, Suc 0, s)"
  by (simp add: numeral_eq_Suc)

lemma ilog10_6: "ilog 10 6 = 0"
  by (simp add: ilog_def ilog_up.simps)

lemma candidates_6: "candidates 6 (Suc 0) = [(1, 6)]"
  by (simp add: candidates_def roundTrips_def ilog10_6 round_at round_defs)

lemma numberToString_6: "numberToString (Fin 6) = ''6''"
  by (simp add: numberToString_def shortest_hit [OF candidates_6] digits.simps)


text \<open>
  The cart after a decrement of item 1 and an increment of item 3: the quantities are 1, 1
  and 4.
\<close>

lemma seed_prices:
  "lit (4599 / 100) = Fin (6472517089461535 / 140737488355328)"
  "lit (5299 / 100) = Fin (7457679507948831 / 140737488355328)"
  "lit (3895 / 100) = Fin (2740862585720013 / 70368744177664)"
  "lit (779 / 20) = Fin (2740862585720013 / 70368744177664)"
  by (simp_all add: lit_def round_at round_defs)

lemma seed_prices_Numbers:
  "roundToDouble (6472517089461535 / 140737488355328) = Fin (6472517089461535 / 140737488355328)"
  "roundToDouble (7457679507948831 / 140737488355328) = Fin (7457679507948831 / 140737488355328)"
  "roundToDouble (2740862585720013 / 70368744177664) = Fin (2740862585720013 / 70368744177664)"
  by (simp_all add: round_at round_defs)

lemma retapped_cart:
  "cartItems (run e BagScreen [TapDecrement 1, TapIncrement 3]) =
     [\<lparr>item_id = 1, name = ''Athletic Gear 1'', details = ''Size L - Black'',
        price = lit (4599 / 100), quantity = lit 1\<rparr>,
      \<lparr>item_id = 2, name = ''Athletic Gear 2'', details = ''Size M - Red'',
        price = lit (5299 / 100), quantity = lit 1\<rparr>,
      \<lparr>item_id = 3, name = ''Athletic Gear 3'', details = ''Size XL - Blue'',
        price = lit (3895 / 100), quantity = lit 4\<rparr>]"
  by (simp add: run_def BagScreen_def mount_def initialCartItems_def decrementQuantity_def
      incrementQuantity_def jsGreater_def jsSub_def jsNeg_def jsAdd_def lit_1 lit_numeral
      lit_1 [unfolded lit_def] lit_numeral [unfolded lit_def])

lemma retapped_totals:
  "computeTotals
     [\<lparr>item_id = 1, name = ''Athletic Gear 1'', details = ''Size L - Black'',
        price = lit (4599 / 100), quantity = lit 1\<rparr>,
      \<lparr>item_id = 2, name = ''Athletic Gear 2'', details = ''Size M - Red'',
        price = lit (5299 / 100), quantity = lit 1\<rparr>,
      \<lparr>item_id = 3, name = ''Athletic Gear 3'', details = ''Size XL - Blue'',
        price = lit (3895 / 100), quantity = lit 4\<rparr>] =
   (Fin (4482137160396309 / 17592186044416), Fin 6)"
  by (simp add: computeTotals_def reduce_def jsAdd_def jsMul_def
      lit_def roundToDouble_def [of 0] round_at round_defs)

lemma retapped_subtotal:
  "subtotal (run e BagScreen [TapDecrement 1, TapIncrement 3]) =
     Fin (4482137160396309 / 17592186044416)"
proof -
  have "rendered (run e BagScreen [TapDecrement 1, TapIncrement 3])"
    unfolding BagScreen_def by (rule rendered_run)
  then have "memoValue (run e BagScreen [TapDecrement 1, TapIncrement 3]) =
      computeTotals (cartItems (run e BagScreen [TapDecrement 1, TapIncrement 3]))"
    by (simp add: rendered_def)
  then show ?thesis by (simp only: subtotal_def retapped_cart retapped_totals fst_conv)
qed

lemma retapped_total:
  "total (run e BagScreen [TapDecrement 1, TapIncrement 3]) =
     Fin (4746019951062549 / 17592186044416)"
  by (simp add: total_def retapped_subtotal SHIPPING_COST_def jsAdd_def lit_def round_at
      round_defs)

lemma lit_2_53: "lit 9007199254740992 = Fin 9007199254740992"
  by (simp add: lit_numeral)

lemma round_2_53_plus_1: "roundToDouble 9007199254740993 = Fin 9007199254740992"
  by (simp add: roundToDouble_at [where e = 53] round_defs)

lemma round_2_53_minus_1: "roundToDouble 9007199254740991 = Fin 9007199254740991"
  by (simp add: roundToDouble_at [where e = 52] round_defs)

lemmas machine = run_def Let_def BagScreen_def mount_def handlePayPalPayment_def
  payWithPayPal_def Alert_alert_def settle_def pressButton_def removeAt_def setCartItems_def
  useMemo_def

section \<open>The properties\<close>

text \<open>
  \<^bold>\<open>C1.\<close> As stated, with a subtotal equal to the sum of price times quantity, the
  property fails: the prices are binary64 values, and every product and every partial sum
  is rounded. From the initial cart, a decrement of item 1 and an increment of item 3 give
  the quantities 1, 1 and 4. The sum 45.99 + 52.99 + 4 \<times> 38.95 is 254.78; the subtotal of
  the screen is not the Number 254.78 but a Number above it, and it is not the exact sum
  of the three products either.
\<close>

theorem subtotal_is_rounded:
  "cartItems (run \<lparr>OS = ios, PayPal = Some PayPalModule\<rparr> BagScreen
     [TapDecrement 1, TapIncrement 3]) =
     [\<lparr>item_id = 1, name = ''Athletic Gear 1'', details = ''Size L - Black'',
        price = lit (4599 / 100), quantity = lit 1\<rparr>,
      \<lparr>item_id = 2, name = ''Athletic Gear 2'', details = ''Size M - Red'',
        price = lit (5299 / 100), quantity = lit 1\<rparr>,
      \<lparr>item_id = 3, name = ''Athletic Gear 3'', details = ''Size XL - Blue'',
        price = lit (3895 / 100), quantity = lit 4\<rparr>] \<and>
   isPrice (lit (4599 / 100)) \<and> isPrice (lit (5299 / 100)) \<and> isPrice (lit (3895 / 100)) \<and>
   isCount (lit 1) \<and> isCount (lit 4) \<and>
   subtotal (run \<lparr>OS = ios, PayPal = Some PayPalModule\<rparr> BagScreen
     [TapDecrement 1, TapIncrement 3]) = Fin (4482137160396309 / 17592186044416) \<and>
   lit (4599 / 100 * 1 + 5299 / 100 * 1 + 3895 / 100 * 4) =
     Fin (8964274320792617 / 35184372088832) \<and>
   subtotal (run \<lparr>OS = ios, PayPal = Some PayPalModule\<rparr> BagScreen
     [TapDecrement 1, TapIncrement 3]) \<noteq> lit (4599 / 100 * 1 + 5299 / 100 * 1 + 3895 / 100 * 4) \<and>
   jsGreater
     (subtotal (run \<lparr>OS = ios, PayPal = Some PayPalModule\<rparr> BagScreen
        [TapDecrement 1, TapIncrement 3]))
     (lit (4599 / 100 * 1 + 5299 / 100 * 1 + 3895 / 100 * 4)) \<and>
   exactSubtotal (cartItems (run \<lparr>OS = ios, PayPal = Some PayPalModule\<rparr> BagScreen
     [TapDecrement 1, TapIncrement 3])) = 17928548641585235 / 70368744177664 \<and>
   subtotal (run \<lparr>OS = ios, PayPal = Some PayPalModule\<rparr> BagScreen
     [TapDecrement 1, TapIncrement 3]) \<noteq>
     Fin (exactSubtotal (cartItems (run \<lparr>OS = ios, PayPal = Some PayPalModule\<rparr> BagScreen
       [TapDecrement 1, TapIncrement 3])))"
proof -
  have l: "lit (4599 / 100 * 1 + 5299 / 100 * 1 + 3895 / 100 * 4) =
      Fin (8964274320792617 / 35184372088832)"
    by (simp add: lit_def round_at round_defs)
  have ok: "isPrice (lit (4599 / 100))" "isPrice (lit (5299 / 100))"
    "isPrice (lit (3895 / 100))" "isCount (lit 1)" "isCount (lit 4)"
    by (simp_all add: seed_prices seed_prices_Numbers isPrice_def isCount_def lit_1 lit_numeral)
  have E: "exactSubtotal (cartItems (run \<lparr>OS = ios, PayPal = Some PayPalModule\<rparr> BagScreen
      [TapDecrement 1, TapIncrement 3])) = 17928548641585235 / 70368744177664"
    by (simp add: retapped_cart seed_prices exactSubtotal_def valueOf_def lit_1 lit_numeral)
  have "Fin (4482137160396309 / 17592186044416) \<noteq> Fin (8964274320792617 / 35184372088832)"
    "Fin (4482137160396309 / 17592186044416) \<noteq> Fin (17928548641585235 / 70368744177664)"
    "jsGreater (Fin (4482137160396309 / 17592186044416))
       (Fin (8964274320792617 / 35184372088832))"
    by (simp_all add: jsGreater_def)
  then show ?thesis
    unfolding E l retapped_subtotal using ok by (simp only: retapped_cart simp_thms)
qed

text \<open>
  \<^bold>\<open>C1, amended.\<close> In every state the screen reaches from any initial cart by any events,
  the values a render binds are those computed from the items now in the cart, and they
  are so again after \<^verbatim>\<open>setCartItems\<close> has run with whatever updater (that of an increment,
  that of a decrement, or the one that clears the cart, after which \<^verbatim>\<open>subtotal\<close> and
  \<^verbatim>\<open>totalItems\<close> are 0 and \<^verbatim>\<open>total\<close> is 15): the memo is never stale. \<^verbatim>\<open>total\<close> is
  \<^verbatim>\<open>subtotal\<close> plus 15, a sum of Numbers. \<^verbatim>\<open>totalItems\<close> is the sum of the quantities when
  these are counts and the sum does not exceed \<open>2\<^sup>5\<^sup>3\<close>. \<^verbatim>\<open>subtotal\<close> is the sum of price times
  quantity when moreover the prices are in whole units and the sum does not exceed \<open>2\<^sup>5\<^sup>3\<close>.
  For prices that are any Numbers from 0 on, it is that sum up to the rounding of the \<open>n\<close>
  products and of the \<open>n\<close> additions: with fewer than \<open>2\<^sup>3\<^sup>2\<close> items (no array holds more) and
  an exact sum that, with the 15 added, does not exceed \<open>2\<^sup>1\<^sup>0\<^sup>2\<^sup>2\<close>, \<^verbatim>\<open>subtotal\<close> is a finite
  Number within \<open>(n + 1) / 2\<^sup>5\<^sup>2\<close> of the exact sum, relatively, and \<^verbatim>\<open>total\<close> one within
  \<open>(n + 2) / 2\<^sup>5\<^sup>2\<close> of the exact sum plus 15.
\<close>

theorem totals_recomputed:
  "(let s = run e (mount items) evs; c = cartItems s; E = exactSubtotal c
    in (subtotal s, totalItems s) = computeTotals c \<and>
       total s = jsAdd (subtotal s) (lit 15) \<and>
       (\<forall>f. cartItems (setCartItems f s) = f c \<and>
            (subtotal (setCartItems f s), totalItems (setCartItems f s)) = computeTotals (f c) \<and>
            total (setCartItems f s) = jsAdd (subtotal (setCartItems f s)) (lit 15)) \<and>
       subtotal (setCartItems (\<lambda>items. []) s) = Fin 0 \<and>
       totalItems (setCartItems (\<lambda>items. []) s) = Fin 0 \<and>
       total (setCartItems (\<lambda>items. []) s) = Fin 15 \<and>
       (list_all (\<lambda>item. isCount (quantity item)) c \<and>
        sum_list (map (\<lambda>item. countOf (quantity item)) c) \<le> 2 ^ 53 \<longrightarrow>
          totalItems s = Fin (of_int (sum_list (map (\<lambda>item. countOf (quantity item)) c)))) \<and>
       (list_all (\<lambda>item. isWhole (price item) \<and> isCount (quantity item)) c \<and>
        sum_list (map (\<lambda>item. countOf (price item) * countOf (quantity item)) c) \<le> 2 ^ 53 \<longrightarrow>
          subtotal s =
            Fin (of_int (sum_list (map (\<lambda>item. countOf (price item) * countOf (quantity item)) c)))) \<and>
       (list_all (\<lambda>item. isPrice (price item) \<and> isCount (quantity item)) c \<and>
        length c < 2 ^ 32 \<and> E + 15 \<le> 2 ^ 1022 \<longrightarrow>
          (\<exists>y z. subtotal s = Fin y \<and> total s = Fin z \<and>
             \<bar>y - E\<bar> \<le> of_nat (length c + 1) * E / 2 ^ 52 \<and>
             \<bar>z - (E + 15)\<bar> \<le> of_nat (length c + 2) * (E + 15) / 2 ^ 52)))"
proof -
  define s where "s = run e (mount items) evs"
  define c where "c = cartItems s"
  define E where "E = exactSubtotal c"
  have r: "rendered s" unfolding s_def by (rule rendered_run)
  then have m: "memoValue s = computeTotals c" by (simp add: rendered_def c_def)
  have sub: "subtotal s =
      foldl (\<lambda>sum item. jsAdd sum (jsMul (price item) (quantity item))) (lit 0) c"
    by (simp add: subtotal_def m computeTotals_def reduce_def)
  have cnt: "totalItems s = foldl (\<lambda>sum item. jsAdd sum (quantity item)) (lit 0) c"
    by (simp add: totalItems_def m computeTotals_def reduce_def)
  have both: "(subtotal s, totalItems s) = computeTotals c"
    by (simp add: subtotal_def totalItems_def m)
  have tot: "total s = jsAdd (subtotal s) (lit 15)"
    by (simp add: total_def SHIPPING_COST_def)
  have upd: "cartItems (setCartItems f s) = f c \<and>
      (subtotal (setCartItems f s), totalItems (setCartItems f s)) = computeTotals (f c) \<and>
      total (setCartItems f s) = jsAdd (subtotal (setCartItems f s)) (lit 15)" for f
    using memoValue_setCartItems [OF r, of f]
    by (simp add: subtotal_def totalItems_def total_def SHIPPING_COST_def c_def)
  have clear: "subtotal (setCartItems (\<lambda>items. []) s) = Fin 0"
    "totalItems (setCartItems (\<lambda>items. []) s) = Fin 0"
    "total (setCartItems (\<lambda>items. []) s) = Fin 15"
    using memoValue_setCartItems [OF r, of "\<lambda>items. []"]
    by (simp_all add: subtotal_def totalItems_def total_def SHIPPING_COST_def computeTotals_def
        reduce_def lit_0 lit_numeral jsAdd_def lit_numeral [unfolded lit_def])
  have exact: "list_all (\<lambda>item. isCount (quantity item)) c \<and>
        sum_list (map (\<lambda>item. countOf (quantity item)) c) \<le> 2 ^ 53 \<longrightarrow>
          totalItems s = Fin (of_int (sum_list (map (\<lambda>item. countOf (quantity item)) c)))"
    unfolding cnt using totalItems_exact [of c] by blast
  have exact': "list_all (\<lambda>item. isWhole (price item) \<and> isCount (quantity item)) c \<and>
        sum_list (map (\<lambda>item. countOf (price item) * countOf (quantity item)) c) \<le> 2 ^ 53 \<longrightarrow>
          subtotal s =
            Fin (of_int (sum_list (map (\<lambda>item. countOf (price item) * countOf (quantity item)) c)))"
    unfolding sub using subtotal_exact [of c] by blast
  have near: "\<exists>y z. subtotal s = Fin y \<and> total s = Fin z \<and>
             \<bar>y - E\<bar> \<le> of_nat (length c + 1) * E / 2 ^ 52 \<and>
             \<bar>z - (E + 15)\<bar> \<le> of_nat (length c + 2) * (E + 15) / 2 ^ 52"
    if ok: "list_all (\<lambda>item. isPrice (price item) \<and> isCount (quantity item)) c"
      and len: "length c < 2 ^ 32" and top: "E + 15 \<le> 2 ^ 1022"
  proof -
    have "length c < 2 ^ 52" using len by simp
    moreover have "exactSubtotal c \<le> 2 ^ 1022" using top by (simp add: E_def)
    ultimately obtain y where y: "subtotal s = Fin y"
        "\<bar>y - E\<bar> \<le> of_nat (length c + 1) * E / 2 ^ 52"
      using fold_error_linear [OF ok] unfolding sub E_def by blast
    obtain z where z: "total s = Fin z"
        "\<bar>z - (E + 15)\<bar> \<le> of_nat (length c + 2) * (E + 15) / 2 ^ 52"
      using total_error [OF ok len] top unfolding tot sub E_def by blast
    from y z show ?thesis by blast
  qed
  show ?thesis
    unfolding Let_def s_def [symmetric] c_def [symmetric] E_def [symmetric]
    using both tot upd clear exact exact' near by blast
qed

theorem totals_recomputed_witness:
  "list_all (\<lambda>item. isPrice (price item) \<and> isCount (quantity item))
     (cartItems (run \<lparr>OS = ios, PayPal = Some PayPalModule\<rparr> (mount initialCartItems)
        [TapDecrement 1, TapIncrement 3])) \<and>
   map quantity (cartItems (run \<lparr>OS = ios, PayPal = Some PayPalModule\<rparr> (mount initialCartItems)
     [TapDecrement 1, TapIncrement 3])) = [Fin 1, Fin 1, Fin 4] \<and>
   length (cartItems (run \<lparr>OS = ios, PayPal = Some PayPalModule\<rparr> (mount initialCartItems)
     [TapDecrement 1, TapIncrement 3])) < 2 ^ 32 \<and>
   exactSubtotal (cartItems (run \<lparr>OS = ios, PayPal = Some PayPalModule\<rparr>
     (mount initialCartItems) [TapDecrement 1, TapIncrement 3])) =
     17928548641585235 / 70368744177664 \<and>
   (17928548641585235 / 70368744177664 + 15 :: rat) \<le> 2 ^ 1022 \<and>
   totalItems (run \<lparr>OS = ios, PayPal = Some PayPalModule\<rparr> (mount initialCartItems)
     [TapDecrement 1, TapIncrement 3]) = Fin 6 \<and>
   subtotal (run \<lparr>OS = ios, PayPal = Some PayPalModule\<rparr> (mount initialCartItems)
     [TapDecrement 1, TapIncrement 3]) = Fin (4482137160396309 / 17592186044416) \<and>
   total (run \<lparr>OS = ios, PayPal = Some PayPalModule\<rparr> (mount initialCartItems)
     [TapDecrement 1, TapIncrement 3]) = Fin (4746019951062549 / 17592186044416) \<and>
   \<bar>4482137160396309 / 17592186044416 - 17928548641585235 / 70368744177664 :: rat\<bar> \<le>
     4 * (17928548641585235 / 70368744177664) / 2 ^ 52 \<and>
   \<bar>4746019951062549 / 17592186044416 - (17928548641585235 / 70368744177664 + 15) :: rat\<bar> \<le>
     5 * (17928548641585235 / 70368744177664 + 15) / 2 ^ 52 \<and>
   list_all (\<lambda>item. isWhole (price item) \<and> isCount (quantity item))
     (cartItems (run \<lparr>OS = ios, PayPal = Some PayPalModule\<rparr>
        (mount
          [\<lparr>item_id = 1, name = ''Athletic Gear 1'', details = ''Size L - Black'',
            price = lit 20, quantity = lit 2\<rparr>,
           \<lparr>item_id = 2, name = ''Athletic Gear 2'', details = ''Size M - Red'',
            price = lit 5, quantity = lit 1\<rparr>])
        [TapIncrement 1])) \<and>
   subtotal (run \<lparr>OS = ios, PayPal = Some PayPalModule\<rparr>
     (mount
       [\<lparr>item_id = 1, name = ''Athletic Gear 1'', details = ''Size L - Black'',
         price = lit 20, quantity = lit 2\<rparr>,
        \<lparr>item_id = 2, name = ''Athletic Gear 2'', details = ''Size M - Red'',
         price = lit 5, quantity = lit 1\<rparr>])
     [TapIncrement 1]) = Fin 65"
proof -
  let ?e = "\<lparr>OS = ios, PayPal = Some PayPalModule\<rparr>"
  let ?s = "run ?e (mount initialCartItems) [TapDecrement 1, TapIncrement 3]"
  let ?c = "[\<lparr>item_id = 1, name = ''Athletic Gear 1'', details = ''Size L - Black'',
        price = lit (4599 / 100), quantity = lit 1\<rparr>,
      \<lparr>item_id = 2, name = ''Athletic Gear 2'', details = ''Size M - Red'',
        price = lit (5299 / 100), quantity = lit 1\<rparr>,
      \<lparr>item_id = 3, name = ''Athletic Gear 3'', details = ''Size XL - Blue'',
        price = lit (3895 / 100), quantity = lit 4\<rparr>]"
  let ?w = "[\<lparr>item_id = 1, name = ''Athletic Gear 1'', details = ''Size L - Black'',
       price = lit 20, quantity = lit 2\<rparr>,
      \<lparr>item_id = 2, name = ''Athletic Gear 2'', details = ''Size M - Red'',
       price = lit 5, quantity = lit 1\<rparr>]"
  let ?v = "[\<lparr>item_id = 1, name = ''Athletic Gear 1'', details = ''Size L - Black'',
       price = lit 20, quantity = lit 3\<rparr>,
      \<lparr>item_id = 2, name = ''Athletic Gear 2'', details = ''Size M - Red'',
       price = lit 5, quantity = lit 1\<rparr>]"
  let ?E = "17928548641585235 / 70368744177664 :: rat"
  have c: "cartItems ?s = ?c"
    using retapped_cart [of ?e] by (simp only: BagScreen_def)
  have ok: "list_all (\<lambda>item. isPrice (price item) \<and> isCount (quantity item)) ?c"
    by (simp add: seed_prices seed_prices_Numbers isPrice_def isCount_def lit_1 lit_numeral)
  have q: "map quantity ?c = [Fin 1, Fin 1, Fin 4]" by (simp add: lit_1 lit_numeral)
  have len: "length ?c < 2 ^ 32" by simp
  have E: "exactSubtotal ?c = ?E"
    by (simp add: seed_prices exactSubtotal_def valueOf_def lit_1 lit_numeral)
  have top: "?E + 15 \<le> 2 ^ 1022" by simp
  have cnts: "list_all (\<lambda>item. isCount (quantity item)) ?c"
    by (simp add: isCount_def lit_1 lit_numeral)
  have n: "sum_list (map (\<lambda>item. countOf (quantity item)) ?c) = 6"
    by (simp add: countOf_def lit_1 lit_numeral)
  note T = totals_recomputed [of ?e initialCartItems "[TapDecrement 1, TapIncrement 3]",
      unfolded Let_def c E]
  from T have "list_all (\<lambda>item. isCount (quantity item)) ?c \<and>
      sum_list (map (\<lambda>item. countOf (quantity item)) ?c) \<le> 2 ^ 53 \<longrightarrow>
      totalItems ?s = Fin (of_int (sum_list (map (\<lambda>item. countOf (quantity item)) ?c)))"
    by blast
  with cnts n have t6: "totalItems ?s = Fin 6" by simp
  from T have "list_all (\<lambda>item. isPrice (price item) \<and> isCount (quantity item)) ?c \<and>
      length ?c < 2 ^ 32 \<and> ?E + 15 \<le> 2 ^ 1022 \<longrightarrow>
      (\<exists>y z. subtotal ?s = Fin y \<and> total ?s = Fin z \<and>
         \<bar>y - ?E\<bar> \<le> of_nat (length ?c + 1) * ?E / 2 ^ 52 \<and>
         \<bar>z - (?E + 15)\<bar> \<le> of_nat (length ?c + 2) * (?E + 15) / 2 ^ 52)"
    by blast
  with ok len top have "\<exists>y z. subtotal ?s = Fin y \<and> total ?s = Fin z \<and>
         \<bar>y - ?E\<bar> \<le> of_nat (length ?c + 1) * ?E / 2 ^ 52 \<and>
         \<bar>z - (?E + 15)\<bar> \<le> of_nat (length ?c + 2) * (?E + 15) / 2 ^ 52"
    by blast
  then obtain y z where yz: "subtotal ?s = Fin y" "total ?s = Fin z"
      "\<bar>y - ?E\<bar> \<le> 4 * ?E / 2 ^ 52" "\<bar>z - (?E + 15)\<bar> \<le> 5 * (?E + 15) / 2 ^ 52"
    by auto
  have sv: "subtotal ?s = Fin (4482137160396309 / 17592186044416)"
    and tv: "total ?s = Fin (4746019951062549 / 17592186044416)"
    using retapped_subtotal [of ?e] retapped_total [of ?e] by (simp_all only: BagScreen_def)
  from yz(1,2) have "y = 4482137160396309 / 17592186044416"
    and "z = 4746019951062549 / 17592186044416"
    unfolding sv tv by simp_all
  with yz(3,4)
  have near: "\<bar>4482137160396309 / 17592186044416 - ?E\<bar> \<le> 4 * ?E / 2 ^ 52"
    "\<bar>4746019951062549 / 17592186044416 - (?E + 15)\<bar> \<le> 5 * (?E + 15) / 2 ^ 52"
    by (simp_all only:)
  have cw: "cartItems (run ?e (mount ?w) [TapIncrement 1]) = ?v"
    by (simp add: run_def mount_def incrementQuantity_def jsAdd_def lit_numeral
        lit_1 lit_numeral [unfolded lit_def])
  have hw: "list_all (\<lambda>item. isWhole (price item) \<and> isCount (quantity item)) ?v"
    by (simp add: isWhole_def isCount_def lit_numeral lit_1)
  have nw: "sum_list (map (\<lambda>item. countOf (price item) * countOf (quantity item)) ?v) = 65"
    by (simp add: countOf_def lit_numeral lit_1)
  note W = totals_recomputed [of ?e ?w "[TapIncrement 1]", unfolded Let_def cw]
  from W have "list_all (\<lambda>item. isWhole (price item) \<and> isCount (quantity item)) ?v \<and>
      sum_list (map (\<lambda>item. countOf (price item) * countOf (quantity item)) ?v) \<le> 2 ^ 53 \<longrightarrow>
      subtotal (run ?e (mount ?w) [TapIncrement 1]) =
      Fin (of_int (sum_list (map (\<lambda>item. countOf (price item) * countOf (quantity item)) ?v)))"
    by blast
  with hw nw have w65: "subtotal (run ?e (mount ?w) [TapIncrement 1]) = Fin 65" by simp
  show ?thesis
    unfolding c cw E using ok q len top t6 sv tv near hw w65 by (simp only: c cw E simp_thms)
qed

text \<open>
  \<^bold>\<open>C2.\<close> On the web \<^verbatim>\<open>PayPal\<close> is never loaded and a checkout never calls
  \<^verbatim>\<open>payWithPayPal\<close>, as the property says. The rest of it fails on the code: the handler
  hands its ``Demo Mode'' message to \<^verbatim>\<open>Alert.alert\<close>, which does nothing on the web, so no
  success is shown, and the \<^verbatim>\<open>onPress\<close> of the OK button, the only place where the web
  branch calls \<^verbatim>\<open>setCartItems([])\<close>, can never run. A checkout on the web leaves the whole
  state as it is; whatever the initial items and the events, no dialog is on screen, no
  payment is submitted and the cart keeps every item. The handler's own comments (``On web:
  shows a demo alert'', ``Clear cart after successful payment'') say what the property
  says. For the initial cart: after a tap on the checkout button, and a press where the
  button of the dialog would be, the three items are still in the cart.
\<close>

theorem web_checkout_shows_nothing:
  "loadPayPal web r = None \<and>
   step \<lparr>OS = web, PayPal = p\<rparr> s TapCheckout = s \<and>
   alerts (run \<lparr>OS = web, PayPal = p\<rparr> (mount items) evs) = [] \<and>
   submitted (run \<lparr>OS = web, PayPal = p\<rparr> (mount items) evs) = [] \<and>
   map item_id (cartItems (run \<lparr>OS = web, PayPal = p\<rparr> (mount items) evs)) =
     map item_id items \<and>
   run \<lparr>OS = web, PayPal = loadPayPal web (Exported (Some PayPalModule))\<rparr> BagScreen
     [TapCheckout] = BagScreen \<and>
   cartItems (run \<lparr>OS = web, PayPal = loadPayPal web (Exported (Some PayPalModule))\<rparr> BagScreen
     [TapCheckout, TapAlertButton 0 0]) = initialCartItems \<and>
   length initialCartItems = 3"
proof -
  have "OS \<lparr>OS = web, PayPal = p\<rparr> = web" by simp
  from web_run [OF this, of items evs]
  have "alerts (run \<lparr>OS = web, PayPal = p\<rparr> (mount items) evs) = []"
    and "submitted (run \<lparr>OS = web, PayPal = p\<rparr> (mount items) evs) = []"
    and "map item_id (cartItems (run \<lparr>OS = web, PayPal = p\<rparr> (mount items) evs)) =
      map item_id items"
    by simp_all
  moreover have "step \<lparr>OS = web, PayPal = p\<rparr> s TapCheckout = s"
    by (simp add: handlePayPalPayment_def Alert_alert_def)
  moreover have "loadPayPal web r = None" by (simp add: loadPayPal_def)
  moreover have
    "run \<lparr>OS = web, PayPal = loadPayPal web (Exported (Some PayPalModule))\<rparr> BagScreen
       [TapCheckout] = BagScreen"
    "cartItems (run \<lparr>OS = web, PayPal = loadPayPal web (Exported (Some PayPalModule))\<rparr>
       BagScreen [TapCheckout, TapAlertButton 0 0]) = initialCartItems"
    by (simp_all add: run_def handlePayPalPayment_def Alert_alert_def pressButton_def
        BagScreen_def mount_def)
  moreover have "length initialCartItems = 3" by (simp add: initialCartItems_def)
  ultimately show ?thesis by blast
qed

text \<open>
  \<^bold>\<open>C3.\<close> Off the web with \<^verbatim>\<open>PayPal\<close> not loaded, a checkout only shows the alert
  ``PayPal Unavailable''; its button has no handler, and once it is pressed the state is
  the state before the checkout: same items, same quantities, same totals.
\<close>

theorem unavailable_checkout:
  "OS e \<noteq> web \<Longrightarrow> PayPal e = None \<Longrightarrow>
   (let s' = step e s TapCheckout
    in s' = s\<lparr>alerts := alerts s @
              [\<lparr>title = ''PayPal Unavailable'',
                message = ''PayPal payment is not available on this platform.'',
                buttons = [\<lparr>btn_text = ''OK'', onPress = None\<rparr>]\<rparr>]\<rparr> \<and>
       step e s' (TapAlertButton (length (alerts s)) 0) = s)"
  by (simp add: Let_def handlePayPalPayment_def Alert_alert_def pressButton_def)

theorem unavailable_checkout_witness:
  "OS \<lparr>OS = android, PayPal = loadPayPal android Threw\<rparr> \<noteq> web \<and>
   PayPal \<lparr>OS = android, PayPal = loadPayPal android Threw\<rparr> = None \<and>
   map title (alerts (run \<lparr>OS = android, PayPal = loadPayPal android Threw\<rparr> BagScreen
     [TapCheckout])) = [''PayPal Unavailable''] \<and>
   run \<lparr>OS = android, PayPal = loadPayPal android Threw\<rparr> BagScreen
     [TapCheckout, TapAlertButton 0 0] = BagScreen"
  using unavailable_checkout [of "\<lparr>OS = android, PayPal = loadPayPal android Threw\<rparr>" BagScreen]
  by (simp add: machine loadPayPal_def)



text \<open>
  \<^bold>\<open>C5.\<close> As stated, with an increment that always adds exactly 1, the property fails: at
  the quantity \<open>2\<^sup>5\<^sup>3\<close> = 9007199254740992 the sum \<^verbatim>\<open>quantity + 1\<close> rounds back to \<open>2\<^sup>5\<^sup>3\<close> and
  the increment changes nothing.
\<close>

theorem increment_stalls_at_2_53:
  "isCount (lit 9007199254740992) \<and>
   incrementQuantity 1
     [\<lparr>item_id = 1, name = ''Athletic Gear 1'', details = ''Size L - Black'',
       price = lit (4599 / 100), quantity = lit 9007199254740992\<rparr>] =
     [\<lparr>item_id = 1, name = ''Athletic Gear 1'', details = ''Size L - Black'',
       price = lit (4599 / 100), quantity = lit 9007199254740992\<rparr>]"
  by (simp add: incrementQuantity_def jsAdd_def lit_2_53 lit_1 round_2_53_plus_1 isCount_def)

text \<open>
  \<^bold>\<open>C5, amended.\<close> For a cart whose quantities are integers from 1 on and an item with the
  given id: a decrement leaves the item as it is when its quantity is 1, it keeps every
  item of the cart in place, and no quantity falls below 1; an increment adds exactly 1 to
  every quantity below \<open>2\<^sup>5\<^sup>3\<close>; and every state reached from such a cart, by any events,
  has all its quantities at least 1.
\<close>

theorem quantity_floor_and_increment:
  assumes "list_all (\<lambda>item. isCount (quantity item)) items"
    and "k < length items" and "item_id (items ! k) = i"
  shows
    "(quantity (items ! k) = lit 1 \<longrightarrow> decrementQuantity i items ! k = items ! k) \<and>
     map item_id (decrementQuantity i items) = map item_id items \<and>
     list_all (\<lambda>item. atLeastOne (quantity item)) (decrementQuantity i items) \<and>
     (\<forall>n. 1 \<le> n \<and> n < 2 ^ 53 \<and> quantity (items ! k) = Fin (of_int n) \<longrightarrow>
        incrementQuantity i items ! k = (items ! k)\<lparr>quantity := Fin (of_int (n + 1))\<rparr>) \<and>
     list_all (\<lambda>item. atLeastOne (quantity item)) (cartItems (run e (mount items) evs))"
proof -
  have a: "quantity (items ! k) = lit 1 \<longrightarrow> decrementQuantity i items ! k = items ! k"
    using assms(2) by (simp add: decrementQuantity_def lit_1 jsGreater_def)
  have b: "map item_id (decrementQuantity i items) = map item_id items"
    by (simp add: decrementQuantity_def)
  have "list_all (\<lambda>item. countOrInf (quantity item)) items"
    using assms(1) by (simp add: list_all_iff countOrInf_def)
  then have "list_all (\<lambda>item. countOrInf (quantity item)) (decrementQuantity i items)"
    by (rule counts_decrementQuantity)
  then have c: "list_all (\<lambda>item. atLeastOne (quantity item)) (decrementQuantity i items)"
    by (simp add: list_all_iff countOrInf_atLeastOne)
  have d: "\<forall>n. 1 \<le> n \<and> n < 2 ^ 53 \<and> quantity (items ! k) = Fin (of_int n) \<longrightarrow>
        incrementQuantity i items ! k = (items ! k)\<lparr>quantity := Fin (of_int (n + 1))\<rparr>"
    using assms(2,3) by (simp add: incrementQuantity_def increment_exact)
  show ?thesis using a b c d counts_run [OF assms(1)] by blast
qed

theorem quantity_floor_and_increment_witness:
  "list_all (\<lambda>item. isCount (quantity item)) initialCartItems \<and>
   (1::nat) < length initialCartItems \<and> item_id (initialCartItems ! 1) = 2 \<and>
   quantity (initialCartItems ! 1) = lit 1 \<and>
   decrementQuantity 2 initialCartItems ! 1 = initialCartItems ! 1 \<and>
   map item_id (decrementQuantity 2 initialCartItems) = [1, 2, 3] \<and>
   incrementQuantity 2 initialCartItems ! 1 = (initialCartItems ! 1)\<lparr>quantity := Fin 2\<rparr> \<and>
   list_all (\<lambda>item. atLeastOne (quantity item))
     (cartItems (run \<lparr>OS = ios, PayPal = Some PayPalModule\<rparr> (mount initialCartItems)
        [TapDecrement 2, TapDecrement 1, TapDecrement 1, TapIncrement 3]))"
proof -
  have h: "list_all (\<lambda>item. isCount (quantity item)) initialCartItems"
    by (simp add: initialCartItems_def isCount_def lit_numeral lit_1)
  have k: "(1::nat) < length initialCartItems" and i: "item_id (initialCartItems ! 1) = 2"
    and q: "quantity (initialCartItems ! 1) = Fin (of_int 1)"
    by (simp_all add: initialCartItems_def lit_1)
  from quantity_floor_and_increment [OF h k i, of "\<lparr>OS = ios, PayPal = Some PayPalModule\<rparr>"
      "[TapDecrement 2, TapDecrement 1, TapDecrement 1, TapIncrement 3]"]
  show ?thesis using h k i q by (simp add: initialCartItems_def lit_1)
qed

text \<open>
  \<^bold>\<open>C6.\<close> When no item of the cart has the given id, the increment and the decrement
  return the items as they are; the totals stay the same, no alert is shown and no
  payment is touched.
\<close>

theorem unknown_id_noop:
  assumes "list_all (\<lambda>item. item_id item \<noteq> i) (cartItems s)" and "rendered s"
  shows
    "incrementQuantity i (cartItems s) = cartItems s \<and>
     decrementQuantity i (cartItems s) = cartItems s \<and>
     (let s' = step e s (TapIncrement i)
      in cartItems s' = cartItems s \<and> subtotal s' = subtotal s \<and>
         totalItems s' = totalItems s \<and> total s' = total s \<and>
         alerts s' = alerts s \<and> inflight s' = inflight s \<and> submitted s' = submitted s) \<and>
     (let s' = step e s (TapDecrement i)
      in cartItems s' = cartItems s \<and> subtotal s' = subtotal s \<and>
         totalItems s' = totalItems s \<and> total s' = total s \<and>
         alerts s' = alerts s \<and> inflight s' = inflight s \<and> submitted s' = submitted s)"
proof -
  have ids: "\<forall>item \<in> set (cartItems s). item_id item \<noteq> i"
    using assms(1) by (simp add: list_all_iff)
  have inc: "incrementQuantity i (cartItems s) = cartItems s"
    using ids by (simp add: incrementQuantity_def map_idI)
  have dec: "decrementQuantity i (cartItems s) = cartItems s"
    using ids by (simp add: decrementQuantity_def map_idI)
  have "memoValue s = computeTotals (cartItems s)" using assms(2) by (simp add: rendered_def)
  then show ?thesis
    using inc dec assms(2)
    by (simp add: Let_def memoValue_setCartItems subtotal_def totalItems_def total_def)
qed

theorem unknown_id_noop_witness:
  "list_all (\<lambda>item. item_id item \<noteq> 7) (cartItems BagScreen) \<and> rendered BagScreen \<and>
   cartItems (step \<lparr>OS = ios, PayPal = Some PayPalModule\<rparr> BagScreen (TapIncrement 7))
     = initialCartItems \<and>
   cartItems (step \<lparr>OS = ios, PayPal = Some PayPalModule\<rparr> BagScreen (TapDecrement 7))
     = initialCartItems \<and>
   total (step \<lparr>OS = ios, PayPal = Some PayPalModule\<rparr> BagScreen (TapDecrement 7))
     = total BagScreen \<and>
   alerts (step \<lparr>OS = ios, PayPal = Some PayPalModule\<rparr> BagScreen (TapDecrement 7)) = []"
proof -
  have h: "list_all (\<lambda>item. item_id item \<noteq> 7) (cartItems BagScreen)"
    by (simp add: BagScreen_def mount_def initialCartItems_def)
  have r: "rendered BagScreen" by (simp add: BagScreen_def rendered_mount)
  have c: "cartItems BagScreen = initialCartItems" and a: "alerts BagScreen = []"
    by (simp_all add: BagScreen_def mount_def)
  from unknown_id_noop [OF h r, of "\<lparr>OS = ios, PayPal = Some PayPalModule\<rparr>"]
  show ?thesis using h r by (simp add: Let_def c a)
qed



text \<open>
  \<^bold>\<open>C8.\<close> For the initial cart (45.99 twice, 52.99 once, 38.95 three times) and the shipping
  cost 15.00, \<^verbatim>\<open>subtotal\<close> is the Number 261.82, \<^verbatim>\<open>total\<close> the Number 276.82 and
  \<^verbatim>\<open>totalItems\<close> is 6; the screen prints them as 261.82, 276.82 and 6.
\<close>

theorem seed_cart_totals:
  "subtotal BagScreen = lit (26182 / 100) \<and> total BagScreen = lit (27682 / 100) \<and>
   totalItems BagScreen = lit 6 \<and>
   toFixed (subtotal BagScreen) 2 = ''261.82'' \<and> toFixed (total BagScreen) 2 = ''276.82'' \<and>
   numberToString (totalItems BagScreen) = ''6''"
proof -
  have "lit (26182 / 100) = Fin (4605986150148997 / 17592186044416)"
    and "lit (27682 / 100) = Fin (4869868940815237 / 17592186044416)"
    and "lit 6 = Fin 6"
    by (simp_all add: lit_def round_at round_defs)
  moreover have "toFixed (Fin (4605986150148997 / 17592186044416)) 2 = ''261.82''"
    by (simp add: toFixed_def digits.simps)
  ultimately show ?thesis
    by (simp add: seed_subtotal seed_totalItems seed_total seed_amount [unfolded seed_total]
        numberToString_6)
qed

text \<open>
  \<^bold>\<open>C9.\<close> As stated the property fails: nothing guards the checkout against a second
  call while a payment is in flight. Two taps on a native platform with \<^verbatim>\<open>PayPal\<close> loaded
  leave two promises in flight.
\<close>

theorem two_attempts_in_flight:
  "length (inflight (run \<lparr>OS = ios, PayPal = Some PayPalModule\<rparr> BagScreen
     [TapCheckout, TapCheckout])) = 2"
  by (simp add: run_def handlePayPalPayment_def payWithPayPal_def BagScreen_def mount_def)

text \<open>
  \<^bold>\<open>C9, amended.\<close> A call of \<^verbatim>\<open>handlePayPalPayment\<close> calls \<^verbatim>\<open>payWithPayPal\<close> exactly once
  off the web with \<^verbatim>\<open>PayPal\<close> loaded and not at all otherwise, whatever is already in
  flight: \<open>n\<close> taps in a row put \<open>n\<close> more promises in flight.
\<close>

theorem checkout_submissions:
  "length (submitted (step e s TapCheckout)) =
     length (submitted s) + (if OS e \<noteq> web \<and> PayPal e \<noteq> None then 1 else 0) \<and>
   length (inflight (step e s TapCheckout)) =
     length (inflight s) + (if OS e \<noteq> web \<and> PayPal e \<noteq> None then 1 else 0) \<and>
   (OS e \<noteq> web \<and> PayPal e \<noteq> None \<longrightarrow>
      length (inflight (run e s (replicate n TapCheckout))) = length (inflight s) + n)"
  by (simp add: run_def inflight_checkouts handlePayPalPayment_def payWithPayPal_def
      Alert_alert_def)

theorem checkout_submissions_witness:
  "length (submitted (step \<lparr>OS = web, PayPal = None\<rparr> BagScreen TapCheckout)) = 0 \<and>
   length (submitted (step \<lparr>OS = ios, PayPal = None\<rparr> BagScreen TapCheckout)) = 0 \<and>
   length (submitted (step \<lparr>OS = ios, PayPal = Some PayPalModule\<rparr> BagScreen TapCheckout)) = 1 \<and>
   length (inflight (run \<lparr>OS = ios, PayPal = Some PayPalModule\<rparr> BagScreen
     (replicate 3 TapCheckout))) = 3"
  using checkout_submissions [of "\<lparr>OS = web, PayPal = None\<rparr>" BagScreen 0]
    checkout_submissions [of "\<lparr>OS = ios, PayPal = None\<rparr>" BagScreen 0]
    checkout_submissions [of "\<lparr>OS = ios, PayPal = Some PayPalModule\<rparr>" BagScreen 3]
  by (simp add: BagScreen_def mount_def)

text \<open>
  \<^bold>\<open>C10.\<close> As stated the property fails: at the quantity \<open>2\<^sup>5\<^sup>3\<close> the increment changes
  nothing and the decrement that follows gives \<open>2\<^sup>5\<^sup>3\<close> - 1.
\<close>

theorem round_trip_fails_at_2_53:
  "isCount (lit 9007199254740992) \<and>
   decrementQuantity 1 (incrementQuantity 1
     [\<lparr>item_id = 1, name = ''Athletic Gear 1'', details = ''Size L - Black'',
       price = lit (4599 / 100), quantity = lit 9007199254740992\<rparr>]) =
     [\<lparr>item_id = 1, name = ''Athletic Gear 1'', details = ''Size L - Black'',
       price = lit (4599 / 100), quantity = lit 9007199254740991\<rparr>] \<and>
   lit 9007199254740991 \<noteq> lit 9007199254740992"
  by (simp add: incrementQuantity_def decrementQuantity_def jsAdd_def jsSub_def jsNeg_def
      jsGreater_def lit_numeral lit_1 round_2_53_plus_1 round_2_53_minus_1 isCount_def)

text \<open>
  \<^bold>\<open>C10, amended.\<close> When every item with the given id has a count below \<open>2\<^sup>5\<^sup>3\<close> for
  quantity, an increment followed by a decrement gives back the items as they were.
\<close>

theorem increment_then_decrement:
  assumes "list_all (\<lambda>item. item_id item = i \<longrightarrow> isSafeCount (quantity item)) items"
  shows "decrementQuantity i (incrementQuantity i items) = items \<and>
         cartItems (run e (mount items) [TapIncrement i, TapDecrement i]) = items"
proof -
  have "decrementQuantity i (incrementQuantity i items) = items"
    using assms
  proof (induction items)
    case Nil
    show ?case by (simp add: decrementQuantity_def incrementQuantity_def)
  next
    case (Cons item items)
    then have IH: "decrementQuantity i (incrementQuantity i items) = items" by simp
    show ?case
    proof (cases "item_id item = i")
      case True
      with Cons.prems have "isSafeCount (quantity item)" by simp
      from round_trip_item [OF this] True IH show ?thesis
        by (simp add: decrementQuantity_def incrementQuantity_def)
    next
      case False
      with IH show ?thesis by (simp add: decrementQuantity_def incrementQuantity_def)
    qed
  qed
  then show ?thesis by (simp add: run_def mount_def setCartItems_def useMemo_def)
qed

theorem increment_then_decrement_witness:
  "list_all (\<lambda>item. item_id item = 1 \<longrightarrow> isSafeCount (quantity item)) initialCartItems \<and>
   decrementQuantity 1 (incrementQuantity 1 initialCartItems) = initialCartItems \<and>
   cartItems (run \<lparr>OS = ios, PayPal = Some PayPalModule\<rparr> BagScreen
     [TapIncrement 1, TapDecrement 1]) = initialCartItems"
proof -
  have h: "list_all (\<lambda>item. item_id item = 1 \<longrightarrow> isSafeCount (quantity item)) initialCartItems"
    by (simp add: initialCartItems_def isSafeCount_def lit_numeral lit_1)
  from increment_then_decrement [OF h, of "\<lparr>OS = ios, PayPal = Some PayPalModule\<rparr>"]
  show ?thesis using h by (simp add: BagScreen_def)
qed

end
